theory Spec2Isabelle
  imports
    Main
    "HOL-Library.Char_ord"
    "HOL-Library.List_Lexorder"
    "HOL-Library.Product_Lexorder"
    "HOL-Library.Sublist"
    "HOL-Library.AList"
    "HOL-Library.Multiset"
begin

section \<open>Strings and numbers as Python has them\<close>

text \<open>
  Strings are lists of 8-bit characters, compared as Python compares \<^verbatim>\<open>str\<close>: character
  by character on the code point, a proper prefix being smaller. The orders on
  \<^typ>\<open>char\<close> and on lists come from the library; tuples are compared lexicographically.
\<close>

definition digit_char :: "nat \<Rightarrow> char" where
  "digit_char d = char_of (48 + d)"

text \<open>\<^verbatim>\<open>str(n)\<close> for a non-negative integer: its decimal digits, no leading zero.\<close>

function str_nat :: "nat \<Rightarrow> string" where
  "str_nat n = (if n < 10 then [digit_char n] else str_nat (n div 10) @ [digit_char (n mod 10)])"
  by pat_completeness auto
termination
  by (relation "measure id") auto

declare str_nat.simps [simp del]

text \<open>\<^verbatim>\<open>str(i)\<close> for any integer, as an f-string formats the requested major version.\<close>

definition str_int :: "int \<Rightarrow> string" where
  "str_int i = (if i < 0 then CHR ''-'' # str_nat (nat (- i)) else str_nat (nat i))"

definition is_digit :: "char \<Rightarrow> bool" where
  "is_digit c = (CHR ''0'' \<le> c \<and> c \<le> CHR ''9'')"

text \<open>\<^verbatim>\<open>int(s)\<close> on a string of decimal digits.\<close>

definition int_of_digits :: "string \<Rightarrow> nat" where
  "int_of_digits s = foldl (\<lambda>acc c. 10 * acc + (of_char c - 48)) 0 s"

definition startswith :: "string \<Rightarrow> string \<Rightarrow> bool" where
  "startswith s p = (take (length p) s = p)"

definition endswith :: "string \<Rightarrow> string \<Rightarrow> bool" where
  "endswith s p = (length p \<le> length s \<and> drop (length s - length p) s = p)"

text \<open>\<^verbatim>\<open>str.lower()\<close> on 8-bit characters: A-Z, and the upper-case letters of Latin-1.\<close>

definition lower_char :: "char \<Rightarrow> char" where
  "lower_char c =
     (let n = (of_char c :: nat) in
      if (65 \<le> n \<and> n \<le> 90) \<or> (192 \<le> n \<and> n \<le> 222 \<and> n \<noteq> 215) then char_of (n + 32) else c)"

definition lower :: "string \<Rightarrow> string" where
  "lower s = map lower_char s"

section \<open>Data model (models.py)\<close>

datatype DistroType = ALPINE | DEBIAN

text \<open>
  The fields of \<^verbatim>\<open>RedisVersion\<close> are validated as \<^verbatim>\<open>ge=1\<close> (major) and \<^verbatim>\<open>ge=0\<close>
  (minor, patch), so they are natural numbers here.
\<close>

record RedisVersion =
  major :: nat
  minor :: nat
  patch :: "nat option"
  suffix :: string

definition is_milestone :: "RedisVersion \<Rightarrow> bool" where
  "is_milestone v = (suffix v \<noteq> [])"

definition is_eol :: "RedisVersion \<Rightarrow> bool" where
  "is_eol v = endswith (lower (suffix v)) ''-eol''"

definition mainline_version :: "RedisVersion \<Rightarrow> string" where
  "mainline_version v = str_nat (major v) @ ''.'' @ str_nat (minor v)"

text \<open>\<^verbatim>\<open>self.patch or 0\<close>.\<close>

definition patch_or_0 :: "RedisVersion \<Rightarrow> nat" where
  "patch_or_0 v = (case patch v of None \<Rightarrow> 0 | Some p \<Rightarrow> p)"

text \<open>The weight computed at the start of the \<^verbatim>\<open>sort_key\<close> property.\<close>

definition suffix_weight :: "string \<Rightarrow> nat" where
  "suffix_weight s = (if startswith s ''rc'' then 100 else if startswith s ''m'' then 50 else 0)"

text \<open>The \<^verbatim>\<open>sort_key\<close> property: a string.\<close>

definition sort_key_of :: "RedisVersion \<Rightarrow> string" where
  "sort_key_of v =
     str_nat (major v) @ ''.'' @ str_nat (minor v) @ ''.'' @ str_nat (patch_or_0 v) @ ''.'' @
     str_nat (suffix_weight (suffix v)) @ ''.'' @ suffix v"

text \<open>\<^verbatim>\<open>__str__\<close>.\<close>

definition str_version :: "RedisVersion \<Rightarrow> string" where
  "str_version v =
     str_nat (major v) @ ''.'' @ str_nat (minor v) @
     (case patch v of None \<Rightarrow> [] | Some p \<Rightarrow> ''.'' @ str_nat p) @ suffix v"

definition version_tuple :: "RedisVersion \<Rightarrow> nat \<times> nat \<times> nat" where
  "version_tuple v = (major v, minor v, patch_or_0 v)"

text \<open>\<^verbatim>\<open>__lt__\<close>, the comparison of two versions.\<close>

definition RedisVersion_lt :: "RedisVersion \<Rightarrow> RedisVersion \<Rightarrow> bool" where
  "RedisVersion_lt self other =
     (let self_tuple = version_tuple self; other_tuple = version_tuple other in
      if self_tuple \<noteq> other_tuple then self_tuple < other_tuple
      else if suffix self = [] \<and> suffix other \<noteq> [] then False
      else if suffix self \<noteq> [] \<and> suffix other = [] then True
      else suffix self < suffix other)"

subsection \<open>Parsing a version string\<close>

datatype error = ValueError | GitOperationError

definition newline :: char where
  "newline = CHR 0x0A"

text \<open>
  \<^verbatim>\<open>RedisVersion.parse\<close>. \<^verbatim>\<open>version_str.lstrip("v")\<close> removes every leading \<^verbatim>\<open>v\<close>.
  The pattern \<^verbatim>\<open>^([1-9]\d*\.\d+(?:\.\d+)?)(.*)\<close> is matched greedily from the start:
  \<^verbatim>\<open>[1-9]\d*\<close> is the longest run of digits, which must not start with 0 and must be
  followed by a dot; \<^verbatim>\<open>\d+\<close> is the longest, non-empty run of digits after it; the
  optional group is taken when a dot and a digit follow; \<^verbatim>\<open>(.*)\<close> is the rest of the
  line (the dot of a pattern does not match a newline). No match raises \<^verbatim>\<open>ValueError\<close>.
\<close>

definition parse :: "string \<Rightarrow> error + RedisVersion" where
  "parse version_str =
     (let version = dropWhile (\<lambda>c. c = CHR ''v'') version_str;
          major_s = takeWhile is_digit version;
          r1 = dropWhile is_digit version
      in if major_s = [] \<or> hd major_s = CHR ''0'' then Inl ValueError
         else (case r1 of
                 [] \<Rightarrow> Inl ValueError
               | c # r2 \<Rightarrow>
                   let minor_s = takeWhile is_digit r2;
                       r3 = dropWhile is_digit r2
                   in if c = CHR ''.'' \<and> minor_s \<noteq> []
                      then (case r3 of
                              d # e # r4 \<Rightarrow>
                                if d = CHR ''.'' \<and> is_digit e
                                then Inr \<lparr>major = int_of_digits major_s, minor = int_of_digits minor_s,
                                          patch = Some (int_of_digits (takeWhile is_digit (e # r4))),
                                          suffix = takeWhile (\<lambda>x. x \<noteq> newline) (dropWhile is_digit (e # r4))\<rparr>
                                else Inr \<lparr>major = int_of_digits major_s, minor = int_of_digits minor_s,
                                          patch = None, suffix = takeWhile (\<lambda>x. x \<noteq> newline) r3\<rparr>
                            | _ \<Rightarrow> Inr \<lparr>major = int_of_digits major_s, minor = int_of_digits minor_s,
                                       patch = None, suffix = takeWhile (\<lambda>x. x \<noteq> newline) r3\<rparr>)
                      else Inl ValueError))"

text \<open>
  The format a version string must have once its leading \<^verbatim>\<open>v\<close>s are removed, in the words
  of the specification: a major of decimal digits that does not start with 0, a dot, a
  minor of decimal digits, and anything after it.
\<close>

definition version_format :: "string \<Rightarrow> bool" where
  "version_format r =
     (\<exists>ma mi rest. r = ma @ CHR ''.'' # mi @ rest \<and>
        ma \<noteq> [] \<and> list_all is_digit ma \<and> hd ma \<noteq> CHR ''0'' \<and>
        mi \<noteq> [] \<and> list_all is_digit mi)"

section \<open>Tag discovery (git_operations.py, version_filter.py)\<close>

text \<open>
  \<^verbatim>\<open>re.search(rf"v{major_version}\.\d+(?:\.\d+)?.*", tag_ref)\<close>: the leftmost position
  where \<^verbatim>\<open>v{major_version}.\<close> and a digit follow; the match runs to the end of the line.
  The first argument is the literal prefix \<^verbatim>\<open>v{major_version}.\<close>.
\<close>

fun search_version :: "string \<Rightarrow> string \<Rightarrow> string option" where
  "search_version pre [] = None"
| "search_version pre (c # cs) =
     (if startswith (c # cs) pre \<and>
         (case drop (length pre) (c # cs) of [] \<Rightarrow> False | d # _ \<Rightarrow> is_digit d)
      then Some (takeWhile (\<lambda>x. x \<noteq> newline) (c # cs))
      else search_version pre cs)"

text \<open>\<^verbatim>\<open>GitClient.extract_version_from_tag\<close>.\<close>

definition extract_version_from_tag :: "string \<Rightarrow> int \<Rightarrow> error + RedisVersion" where
  "extract_version_from_tag tag_ref major_version =
     (case search_version (''v'' @ str_int major_version @ ''.'') tag_ref of
        None \<Rightarrow> Inl GitOperationError
      | Some version_str \<Rightarrow>
          (case parse version_str of Inl _ \<Rightarrow> Inl GitOperationError | Inr v \<Rightarrow> Inr v))"

text \<open>A selected version: (version, commit, tag_ref).\<close>

type_synonym version_entry = "RedisVersion \<times> string \<times> string"

text \<open>
  \<^verbatim>\<open>versions.sort(key=lambda x: x[0].sort_key, reverse=True)\<close>: a stable sort on the
  string key; with \<^verbatim>\<open>reverse=True\<close> the list is reversed, sorted and reversed again, so
  entries with equal keys keep their order.
\<close>

definition sort_newest_first :: "version_entry list \<Rightarrow> version_entry list" where
  "sort_newest_first versions = rev (sort_key (\<lambda>x. sort_key_of (fst x)) (rev versions))"

text \<open>The loop of \<^verbatim>\<open>get_redis_versions_from_tags\<close>: a tag that raises is skipped.\<close>

fun parse_tags :: "(string \<times> string) list \<Rightarrow> int \<Rightarrow> version_entry list" where
  "parse_tags [] major_version = []"
| "parse_tags ((commit, tag_ref) # tags) major_version =
     (case extract_version_from_tag tag_ref major_version of
        Inl _ \<Rightarrow> parse_tags tags major_version
      | Inr version \<Rightarrow> (version, commit, tag_ref) # parse_tags tags major_version)"

text \<open>
  \<^verbatim>\<open>VersionFilter.get_redis_versions_from_tags\<close>; the first argument is what
  \<^verbatim>\<open>git_client.list_remote_tags(major_version)\<close> returned.
\<close>

definition get_redis_versions_from_tags :: "(string \<times> string) list \<Rightarrow> int \<Rightarrow> version_entry list" where
  "get_redis_versions_from_tags tags major_version = sort_newest_first (parse_tags tags major_version)"

section \<open>Distributions, releases and entries (models.py)\<close>

record Distribution =
  type :: DistroType
  name :: string

definition DistroType_value :: "DistroType \<Rightarrow> string" where
  "DistroType_value t = (case t of ALPINE \<Rightarrow> ''alpine'' | DEBIAN \<Rightarrow> ''debian'')"

definition is_default :: "Distribution \<Rightarrow> bool" where
  "is_default d = (type d = DEBIAN)"

definition tag_names :: "Distribution \<Rightarrow> string list" where
  "tag_names d = (if type d = ALPINE then [DistroType_value (type d), name d] else [name d])"

record Release =
  commit :: string
  version :: RedisVersion
  distribution :: Distribution
  git_fetch_ref :: string

record StackbrewEntry =
  tags :: "string list"
  commit :: string
  version :: RedisVersion
  distribution :: Distribution
  git_fetch_ref :: string

section \<open>Tag derivation (stackbrew.py, StackbrewGenerator)\<close>

text \<open>\<^verbatim>\<open>generate_tags_for_release\<close>.\<close>

definition generate_tags_for_release :: "Release \<Rightarrow> bool \<Rightarrow> string list" where
  "generate_tags_for_release release is_latest =
     (let version = Release.version release;
          distribution = Release.distribution release;
          version_tags0 = [str_version version];
          version_tags1 = (if \<not> is_milestone version then version_tags0 @ [mainline_version version]
                           else version_tags0);
          version_tags = (if is_latest then version_tags1 @ [str_nat (major version)] else version_tags1);
          tags0 = (if is_default distribution then version_tags else []);
          tags1 = tags0 @ concat (map (\<lambda>distro_name.
                                    map (\<lambda>version_tag. version_tag @ ''-'' @ distro_name) version_tags)
                                  (tag_names distribution))
      in if is_latest
         then (if is_default distribution then tags1 @ [''latest''] else tags1) @ tag_names distribution
         else tags1)"

text \<open>
  The state of the scan in \<^verbatim>\<open>generate_stackbrew_library\<close>: \<^verbatim>\<open>latest_minor\<close> and
  \<^verbatim>\<open>latest_minor_unset\<close>.
\<close>

record latest_state =
  latest_minor :: "nat option"
  latest_minor_unset :: bool

definition initial_state :: latest_state where
  "initial_state = \<lparr>latest_minor = None, latest_minor_unset = True\<rparr>"

text \<open>The update of the state at the head of the loop body.\<close>

definition latest_step :: "latest_state \<Rightarrow> Release \<Rightarrow> latest_state" where
  "latest_step st release =
     (if latest_minor_unset st
      then (if \<not> is_milestone (Release.version release)
            then \<lparr>latest_minor = Some (minor (Release.version release)), latest_minor_unset = False\<rparr>
            else st)
      else if latest_minor st \<noteq> Some (minor (Release.version release))
           then st\<lparr>latest_minor := None\<rparr>
           else st)"

text \<open>\<^verbatim>\<open>is_latest = latest_minor is not None\<close>.\<close>

definition is_latest_in :: "latest_state \<Rightarrow> bool" where
  "is_latest_in st = (latest_minor st \<noteq> None)"

definition make_entry :: "Release \<Rightarrow> string list \<Rightarrow> StackbrewEntry" where
  "make_entry release ts =
     \<lparr>tags = ts, commit = Release.commit release, version = Release.version release,
      distribution = Release.distribution release, git_fetch_ref = Release.git_fetch_ref release\<rparr>"

text \<open>The loop over the releases; \<^verbatim>\<open>entries\<close> is the list built so far.\<close>

fun library_loop :: "latest_state \<Rightarrow> Release list \<Rightarrow> StackbrewEntry list \<Rightarrow> StackbrewEntry list" where
  "library_loop st [] entries = entries"
| "library_loop st (release # releases) entries =
     (let st' = latest_step st release;
          ts = generate_tags_for_release release (is_latest_in st')
      in if ts \<noteq> [] then library_loop st' releases (entries @ [make_entry release ts])
         else library_loop st' releases entries)"

definition generate_stackbrew_library :: "Release list \<Rightarrow> StackbrewEntry list" where
  "generate_stackbrew_library releases =
     (if releases = [] then [] else library_loop initial_state releases [])"

text \<open>The flags \<^verbatim>\<open>is_latest\<close> that the loop computes, release by release.\<close>

fun latest_flags :: "latest_state \<Rightarrow> Release list \<Rightarrow> bool list" where
  "latest_flags st [] = []"
| "latest_flags st (release # releases) =
     is_latest_in (latest_step st release) # latest_flags (latest_step st release) releases"

text \<open>
  The tag set as section 4.4 of the specification words it: the version tags, emitted bare
  for the default distribution, then suffixed with every tag fragment of the distribution,
  then, for the latest release, \<^verbatim>\<open>latest\<close> (default distribution only) and the bare
  fragments.
\<close>

definition reference_version_tags :: "RedisVersion \<Rightarrow> bool \<Rightarrow> string list" where
  "reference_version_tags v is_latest =
     [str_version v] @ (if \<not> is_milestone v then [mainline_version v] else []) @
     (if is_latest then [str_nat (major v)] else [])"

definition reference_tags :: "Release \<Rightarrow> bool \<Rightarrow> string list" where
  "reference_tags release is_latest =
     (let versionTags = reference_version_tags (Release.version release) is_latest;
          d = Release.distribution release
      in (if is_default d then versionTags else []) @
         concat (map (\<lambda>fragment. map (\<lambda>t. t @ ''-'' @ fragment) versionTags) (tag_names d)) @
         (if is_latest then (if is_default d then [''latest''] else []) @ tag_names d else []))"

text \<open>What an entry takes over from its release.\<close>

definition release_fields :: "Release \<Rightarrow> string \<times> RedisVersion \<times> Distribution \<times> string" where
  "release_fields r =
     (Release.commit r, Release.version r, Release.distribution r, Release.git_fetch_ref r)"

definition entry_fields :: "StackbrewEntry \<Rightarrow> string \<times> RedisVersion \<times> Distribution \<times> string" where
  "entry_fields e =
     (StackbrewEntry.commit e, StackbrewEntry.version e, StackbrewEntry.distribution e,
      StackbrewEntry.git_fetch_ref e)"

text \<open>
  Two predicates on the state of the scan: the pin has been set and cleared; the pin has
  been set to the given minor and is either still set or cleared.
\<close>

definition cleared :: "latest_state \<Rightarrow> bool" where
  "cleared st = (\<not> latest_minor_unset st \<and> latest_minor st = None)"

definition pinned_or_cleared :: "nat \<Rightarrow> latest_state \<Rightarrow> bool" where
  "pinned_or_cleared m st =
     (\<not> latest_minor_unset st \<and> (latest_minor st = Some m \<or> latest_minor st = None))"

section \<open>Version selection (version_filter.py)\<close>

abbreviation minor_line :: "version_entry \<Rightarrow> string" where
  "minor_line e \<equiv> mainline_version (fst e)"

subsection \<open>filter_eol_versions\<close>

text \<open>
  The dictionary \<^verbatim>\<open>minor_versions\<close> keeps its keys in the order of insertion: it is an
  association list. A new key is added at the end with the entry as its group; an entry of
  a known key is appended to the group of that key.
\<close>

fun dict_append :: "string \<Rightarrow> version_entry \<Rightarrow> (string \<times> version_entry list) list \<Rightarrow>
    (string \<times> version_entry list) list" where
  "dict_append k e [] = [(k, [e])]"
| "dict_append k e ((k', g) # d) =
     (if k' = k then (k', g @ [e]) # d else (k', g) # dict_append k e d)"

text \<open>The first loop of \<^verbatim>\<open>filter_eol_versions\<close>: the versions grouped by \<^verbatim>\<open>mainline_version\<close>.\<close>

fun group_by_minor :: "(string \<times> version_entry list) list \<Rightarrow> version_entry list \<Rightarrow>
    (string \<times> version_entry list) list" where
  "group_by_minor minor_versions [] = minor_versions"
| "group_by_minor minor_versions (e # versions) =
     group_by_minor (dict_append (mainline_version (fst e)) e minor_versions) versions"

text \<open>\<^verbatim>\<open>any(version.is_eol for version, _, _ in minor_group)\<close>.\<close>

definition has_eol :: "version_entry list \<Rightarrow> bool" where
  "has_eol minor_group = list_ex (\<lambda>e. is_eol (fst e)) minor_group"

text \<open>The second loop: the groups without an end-of-life version, one after the other.\<close>

fun keep_groups :: "(string \<times> version_entry list) list \<Rightarrow> version_entry list" where
  "keep_groups [] = []"
| "keep_groups ((minor_key, minor_group) # d) =
     (if has_eol minor_group then keep_groups d else minor_group @ keep_groups d)"

text \<open>\<^verbatim>\<open>VersionFilter.filter_eol_versions\<close>; the survivors are sorted again.\<close>

definition filter_eol_versions :: "version_entry list \<Rightarrow> version_entry list" where
  "filter_eol_versions versions = sort_newest_first (keep_groups (group_by_minor [] versions))"

text \<open>The minor line of an entry has an end-of-life version among the given versions.\<close>

definition eol_line :: "version_entry list \<Rightarrow> version_entry \<Rightarrow> bool" where
  "eol_line versions e =
     list_ex (\<lambda>e'. mainline_version (fst e') = mainline_version (fst e) \<and> is_eol (fst e')) versions"

text \<open>The entries of a dictionary of groups, and the groups holding only entries of their key.\<close>

definition flat :: "(string \<times> version_entry list) list \<Rightarrow> version_entry list" where
  "flat d = concat (map snd d)"

definition well_grouped :: "(string \<times> version_entry list) list \<Rightarrow> bool" where
  "well_grouped d = (distinct (map fst d) \<and> list_all (\<lambda>(k, g). list_all (\<lambda>e. minor_line e = k) g) d)"

subsection \<open>filter_actual_versions\<close>

text \<open>
  The ordered dictionary \<^verbatim>\<open>patch_versions\<close>, keyed by (major, minor, patch): a new key is
  added at the end; the value of a known key is replaced, in its place, when it is a
  milestone and the new entry is not.
\<close>

type_synonym patch_key = "nat \<times> nat \<times> nat option"

definition patch_key_of :: "version_entry \<Rightarrow> patch_key" where
  "patch_key_of e = (major (fst e), minor (fst e), patch (fst e))"

fun patch_insert :: "patch_key \<Rightarrow> version_entry \<Rightarrow> (patch_key \<times> version_entry) list \<Rightarrow>
    (patch_key \<times> version_entry) list" where
  "patch_insert k e [] = [(k, e)]"
| "patch_insert k e ((k', e') # d) =
     (if k' = k
      then (if is_milestone (fst e') \<and> \<not> is_milestone (fst e) then (k', e) # d else (k', e') # d)
      else (k', e') # patch_insert k e d)"

text \<open>The first loop of \<^verbatim>\<open>filter_actual_versions\<close>.\<close>

fun collect_patch_versions :: "(patch_key \<times> version_entry) list \<Rightarrow> version_entry list \<Rightarrow>
    (patch_key \<times> version_entry) list" where
  "collect_patch_versions d [] = d"
| "collect_patch_versions d (e # versions) =
     collect_patch_versions (patch_insert (patch_key_of e) e d) versions"

text \<open>\<^verbatim>\<open>patch_versions.values()\<close> after the first loop (the source also prints it).\<close>

definition patch_versions :: "version_entry list \<Rightarrow> version_entry list" where
  "patch_versions versions = map snd (collect_patch_versions [] versions)"

text \<open>The second loop, with the set \<^verbatim>\<open>mainlines_with_ga\<close> as its state.\<close>

fun keep_until_ga :: "string set \<Rightarrow> version_entry list \<Rightarrow> version_entry list" where
  "keep_until_ga mainlines_with_ga [] = []"
| "keep_until_ga mainlines_with_ga (e # es) =
     (if mainline_version (fst e) \<notin> mainlines_with_ga
      then e # keep_until_ga (if \<not> is_milestone (fst e)
                              then insert (mainline_version (fst e)) mainlines_with_ga
                              else mainlines_with_ga) es
      else keep_until_ga mainlines_with_ga es)"

text \<open>\<^verbatim>\<open>VersionFilter.filter_actual_versions\<close>.\<close>

definition filter_actual_versions :: "version_entry list \<Rightarrow> version_entry list" where
  "filter_actual_versions versions = keep_until_ga {} (patch_versions versions)"

text \<open>The entry that stands for a key: the first entry of the key that is not a milestone when
  there is one, the first entry of the key otherwise.\<close>

definition chosen :: "version_entry list \<Rightarrow> patch_key \<Rightarrow> version_entry option" where
  "chosen versions k =
     (case find (\<lambda>e. patch_key_of e = k \<and> \<not> is_milestone (fst e)) versions of
        Some g \<Rightarrow> Some g
      | None \<Rightarrow> find (\<lambda>e. patch_key_of e = k) versions)"

text \<open>A dictionary with distinct keys whose values carry their key.\<close>

definition keyed :: "(patch_key \<times> version_entry) list \<Rightarrow> bool" where
  "keyed d = (distinct (map fst d) \<and> list_all (\<lambda>(k, e). patch_key_of e = k) d)"

text \<open>The keys of a list in the order of their first occurrence, the known keys left out.\<close>

fun firsts :: "'k set \<Rightarrow> 'k list \<Rightarrow> 'k list" where
  "firsts S [] = []"
| "firsts S (k # ks) = (if k \<in> S then firsts S ks else k # firsts (insert k S) ks)"

text \<open>
  The selection as the specification words it, over the input alone. A key has a GA entry
  when some entry of the input with that key has no suffix. The minor line of an entry is
  resolved before the entry when, before the first entry of its key, the input holds an
  entry of the same minor line whose key has a GA entry. The reference result keeps, for the
  keys of the input in the order of their first occurrence, the entry chosen for the key,
  unless its minor line is resolved before it.
\<close>

definition has_ga :: "version_entry list \<Rightarrow> patch_key \<Rightarrow> bool" where
  "has_ga versions k = list_ex (\<lambda>h. patch_key_of h = k \<and> \<not> is_milestone (fst h)) versions"

definition resolved_before :: "version_entry list \<Rightarrow> version_entry \<Rightarrow> bool" where
  "resolved_before versions e =
     list_ex (\<lambda>x. minor_line x = minor_line e \<and> has_ga versions (patch_key_of x))
       (takeWhile (\<lambda>y. patch_key_of y \<noteq> patch_key_of e) versions)"

definition reference_actual_versions :: "version_entry list \<Rightarrow> version_entry list" where
  "reference_actual_versions versions =
     filter (\<lambda>e. \<not> resolved_before versions e)
       (List.map_filter (chosen versions) (firsts {} (map patch_key_of versions)))"

text \<open>
  The value of \<^verbatim>\<open>mainlines_with_ga\<close> after the second loop has gone through the entries
  \<^verbatim>\<open>P\<close>, and the test of the loop on an entry of the list \<^verbatim>\<open>L\<close> of the entries kept per key:
  a GA entry of its minor line stands before it.
\<close>

definition ga_lines :: "version_entry list \<Rightarrow> string set" where
  "ga_lines P = minor_line ` {g \<in> set P. \<not> is_milestone (fst g)}"

definition blocked :: "version_entry list \<Rightarrow> version_entry \<Rightarrow> bool" where
  "blocked L e =
     list_ex (\<lambda>g. \<not> is_milestone (fst g) \<and> minor_line g = minor_line e)
       (takeWhile (\<lambda>y. patch_key_of y \<noteq> patch_key_of e) L)"

section \<open>Merging into an existing document (stackbrew.py, StackbrewUpdater)\<close>

text \<open>\<^verbatim>\<open>s.split(c)\<close> for a single character: the empty string gives one empty piece.\<close>

fun split_on :: "char \<Rightarrow> string \<Rightarrow> string list" where
  "split_on c [] = [[]]"
| "split_on c (x # xs) =
     (if x = c then [] # split_on c xs
      else (case split_on c xs of [] \<Rightarrow> [[x]] | w # ws \<Rightarrow> (x # w) # ws))"

text \<open>\<^verbatim>\<open>'\n'.join(lines)\<close>.\<close>

fun join_lines :: "string list \<Rightarrow> string" where
  "join_lines [] = []"
| "join_lines [l] = l"
| "join_lines (l # m # ls) = l @ newline # join_lines (m # ls)"

text \<open>
  The characters that \<^verbatim>\<open>strip\<close> and \<^verbatim>\<open>rstrip\<close> remove, among the 8-bit characters: tab,
  line feed, vertical tab, form feed, carriage return, the four separators 28 to 31, the
  space, and the characters 133 and 160.
\<close>

definition is_space :: "char \<Rightarrow> bool" where
  "is_space c = (of_char c \<in> {9, 10, 11, 12, 13, 28, 29, 30, 31, 32, 133, 160 :: nat})"

definition rstrip :: "string \<Rightarrow> string" where
  "rstrip s = rev (dropWhile is_space (rev s))"

definition strip :: "string \<Rightarrow> string" where
  "strip s = dropWhile is_space (rstrip s)"

definition is_tags_line :: "string \<Rightarrow> bool" where
  "is_tags_line line = startswith line ''Tags:''"

text \<open>\<^verbatim>\<open>line.startswith(('Architectures:', 'GitCommit:', 'GitFetch:', 'Directory:'))\<close>.\<close>

definition is_field_line :: "string \<Rightarrow> bool" where
  "is_field_line line =
     (startswith line ''Architectures:'' \<or> startswith line ''GitCommit:'' \<or>
      startswith line ''GitFetch:'' \<or> startswith line ''Directory:'')"

text \<open>
  The lines that the loop of \<^verbatim>\<open>_parse_stackbrew_entries\<close> can put into an entry: a line that
  starts with \<^verbatim>\<open>Tags:\<close> or with one of the four labels, and a blank line.
\<close>

definition is_entry_line :: "string \<Rightarrow> bool" where
  "is_entry_line line = (is_tags_line line \<or> is_field_line line \<or> strip line = [])"

text \<open>
  The loop of \<^verbatim>\<open>_parse_stackbrew_entries\<close>, with the list of entries and the current entry
  as its state; the branches are those of the source, in its order. A line that is neither
  blank nor labelled changes nothing.
\<close>

fun parse_entries_loop :: "string list list \<Rightarrow> string list \<Rightarrow> string list \<Rightarrow> string list list" where
  "parse_entries_loop entries current_entry [] =
     (if current_entry \<noteq> [] then entries @ [current_entry] else entries)"
| "parse_entries_loop entries current_entry (l # ls) =
     (let line = rstrip l in
      if is_tags_line line \<and> current_entry \<noteq> []
        then parse_entries_loop (entries @ [current_entry]) [line] ls
      else if is_tags_line line
        then parse_entries_loop entries [line] ls
      else if current_entry \<noteq> [] \<and> (is_field_line line \<or> strip line = [])
        then parse_entries_loop entries (current_entry @ [line]) ls
      else if strip line = [] \<and> current_entry = []
        then parse_entries_loop entries current_entry ls
      else if strip line = [] \<and> current_entry \<noteq> []
        then parse_entries_loop (entries @ [current_entry]) [] ls
      else parse_entries_loop entries current_entry ls)"

definition parse_stackbrew_entries :: "string list \<Rightarrow> string list list" where
  "parse_stackbrew_entries lines = parse_entries_loop [] [] lines"

text \<open>
  The segments of a list of lines: one for each line that starts with \<^verbatim>\<open>Tags:\<close>, made of
  that line and the lines after it up to the next such line. The lines before the first
  \<^verbatim>\<open>Tags:\<close> line are in no segment. This is the reference against which the parser is
  compared; it is not taken from the source.
\<close>

function segments :: "string list \<Rightarrow> string list list" where
  "segments [] = []"
| "segments (l # ls) =
     (if is_tags_line l
      then (l # takeWhile (\<lambda>x. \<not> is_tags_line x) ls) # segments (dropWhile (\<lambda>x. \<not> is_tags_line x) ls)
      else segments ls)"
  by pat_completeness auto

termination segments
  by (relation "measure length") (simp_all add: length_dropWhile_le less_Suc_eq_le)

text \<open>
  \<^verbatim>\<open>re.match(rf'^{major_version}(?:\.|$|-)', tag)\<close>: the tag starts with the decimal major
  version, followed by a dot, a dash, or the end of the tag (\<^verbatim>\<open>$\<close> also matches before a
  final newline).
\<close>

definition tag_matches :: "int \<Rightarrow> string \<Rightarrow> bool" where
  "tag_matches major_version tag =
     (let p = str_int major_version in
      startswith tag p \<and>
      (case drop (length p) tag of
         [] \<Rightarrow> True
       | c # rest \<Rightarrow> c = CHR ''.'' \<or> c = CHR ''-'' \<or> (c = newline \<and> rest = [])))"

text \<open>
  \<^verbatim>\<open>_entry_belongs_to_major_version\<close>: only the first line that starts with \<^verbatim>\<open>Tags:\<close> is
  looked at.
\<close>

definition entry_belongs_to_major_version :: "string list \<Rightarrow> int \<Rightarrow> bool" where
  "entry_belongs_to_major_version entry_lines major_version =
     (case find is_tags_line entry_lines of
        None \<Rightarrow> False
      | Some line \<Rightarrow>
          list_ex (tag_matches major_version) (map strip (split_on CHR '','' (strip (drop 5 line)))))"

abbreviation belongs_to :: "int \<Rightarrow> string list \<Rightarrow> bool" where
  "belongs_to major_version entry \<equiv> entry_belongs_to_major_version entry major_version"

text \<open>
  The loop of \<^verbatim>\<open>update_stackbrew_content\<close> over the entries, with the state
  (\<^verbatim>\<open>target_entries\<close>, \<^verbatim>\<open>other_entries_before\<close>, \<^verbatim>\<open>other_entries_after\<close>,
  \<^verbatim>\<open>target_start_found\<close>). The source also sets \<^verbatim>\<open>target_end_found\<close> and counts the removed
  entries; neither is read for the result.
\<close>

fun partition_loop :: "int \<Rightarrow> string list list \<times> string list list \<times> string list list \<times> bool \<Rightarrow>
    string list list \<Rightarrow> string list list \<times> string list list \<times> string list list \<times> bool" where
  "partition_loop major_version st [] = st"
| "partition_loop major_version (target_entries, other_entries_before, other_entries_after, target_start_found)
     (entry # entries) =
     (if entry_belongs_to_major_version entry major_version
      then partition_loop major_version
             (target_entries @ [entry], other_entries_before, other_entries_after, True) entries
      else if \<not> target_start_found
      then partition_loop major_version
             (target_entries, other_entries_before @ [entry], other_entries_after, target_start_found) entries
      else partition_loop major_version
             (target_entries, other_entries_before, other_entries_after @ [entry], target_start_found) entries)"

text \<open>
  Adding a block of lines to the result: an empty line first when the result is not empty
  and its last line is not blank.
\<close>

definition add_block :: "string list \<Rightarrow> string list \<Rightarrow> string list" where
  "add_block result_lines block =
     (if result_lines \<noteq> [] \<and> strip (last result_lines) \<noteq> [] then result_lines @ [[]] else result_lines)
     @ block"

text \<open>The lines before the first line that starts with \<^verbatim>\<open>Tags:\<close>.\<close>

definition header_lines_of :: "string list \<Rightarrow> string list" where
  "header_lines_of lines = takeWhile (\<lambda>line. \<not> is_tags_line line) lines"

text \<open>
  \<^verbatim>\<open>result_lines\<close> at the end of \<^verbatim>\<open>update_stackbrew_content\<close>, for a document with a
  \<^verbatim>\<open>Tags:\<close> line; \<^verbatim>\<open>content_start_idx\<close> is the number of header lines.
\<close>

definition merged_lines :: "string list \<Rightarrow> int \<Rightarrow> string \<Rightarrow> string list" where
  "merged_lines lines major_version new_content =
     (let header_lines = header_lines_of lines;
          entries = parse_stackbrew_entries (drop (length header_lines) lines);
          (target_entries, other_entries_before, other_entries_after, target_start_found) =
             partition_loop major_version ([], [], [], False) entries;
          result_lines1 = foldl add_block header_lines other_entries_before;
          result_lines2 = add_block result_lines1 (split_on newline new_content)
      in foldl add_block result_lines2 other_entries_after)"

text \<open>
  \<^verbatim>\<open>input_file.read_text(encoding='utf-8')\<close> on the characters of the file. The file is opened
  in text mode with universal newlines: a carriage return followed by a line feed, and a
  carriage return alone, are read as one line feed.
\<close>

definition carriage_return :: char where
  "carriage_return = CHR 0x0D"

fun read_text :: "string \<Rightarrow> string" where
  "read_text [] = []"
| "read_text [c] = (if c = carriage_return then [newline] else [c])"
| "read_text (c # d # cs) =
     (if c = carriage_return \<and> d = newline then newline # read_text cs
      else if c = carriage_return then newline # read_text (d # cs)
      else c # read_text (d # cs))"

text \<open>
  \<^verbatim>\<open>update_stackbrew_content\<close>; the first argument holds the characters of the input file.
\<close>

definition update_stackbrew_content :: "string \<Rightarrow> int \<Rightarrow> string \<Rightarrow> string" where
  "update_stackbrew_content input_file major_version new_content =
     (let content = read_text input_file;
          lines = split_on newline content in
      if \<not> list_ex is_tags_line lines
      then rstrip content @ [newline, newline] @ new_content
      else join_lines (merged_lines lines major_version new_content))"

text \<open>The entries of a document that do not belong to the major version, as parsed.\<close>

definition other_entries :: "string list \<Rightarrow> int \<Rightarrow> string list list" where
  "other_entries lines major_version =
     filter (\<lambda>e. \<not> belongs_to major_version e)
       (parse_stackbrew_entries (drop (length (header_lines_of lines)) lines))"

section \<open>The comparison of versions\<close>

lemma RedisVersion_lt_iff:
  "RedisVersion_lt a b \<longleftrightarrow>
     version_tuple a < version_tuple b \<or>
     (version_tuple a = version_tuple b \<and> suffix a \<noteq> [] \<and> (suffix b = [] \<or> suffix a < suffix b))"
  by (cases "suffix a"; cases "suffix b") (auto simp: RedisVersion_lt_def Let_def)

lemma RedisVersion_lt_irrefl: "\<not> RedisVersion_lt a a"
  by (simp add: RedisVersion_lt_iff)

lemma RedisVersion_lt_trans:
  assumes "RedisVersion_lt a b" and "RedisVersion_lt b c"
  shows "RedisVersion_lt a c"
proof -
  from assms have le: "version_tuple a \<le> version_tuple b" "version_tuple b \<le> version_tuple c"
    by (auto simp: RedisVersion_lt_iff)
  show ?thesis
  proof (cases "version_tuple a = version_tuple b \<and> version_tuple b = version_tuple c")
    case False
    with le have "version_tuple a < version_tuple c" by auto
    then show ?thesis by (simp add: RedisVersion_lt_iff)
  next
    case True
    with assms have a: "suffix a \<noteq> []" and ab: "suffix b = [] \<or> suffix a < suffix b"
      and b: "suffix b \<noteq> []" and bc: "suffix c = [] \<or> suffix b < suffix c"
      by (auto simp: RedisVersion_lt_iff)
    from ab b bc have "suffix c = [] \<or> suffix a < suffix c" by auto
    with True a show ?thesis by (simp add: RedisVersion_lt_iff)
  qed
qed

lemma RedisVersion_lt_total:
  "RedisVersion_lt a b \<or> RedisVersion_lt b a \<or> (version_tuple a = version_tuple b \<and> suffix a = suffix b)"
proof (cases "version_tuple a = version_tuple b")
  case False
  then have "version_tuple a < version_tuple b \<or> version_tuple b < version_tuple a" by auto
  then show ?thesis by (auto simp: RedisVersion_lt_iff)
next
  case True
  have "suffix a < suffix b \<or> suffix b < suffix a \<or> suffix a = suffix b" by auto
  with True show ?thesis
    by (cases "suffix a"; cases "suffix b") (auto simp: RedisVersion_lt_iff)
qed

text \<open>
  The comparison \<^verbatim>\<open>__lt__\<close> as it is written: it is irreflexive and transitive, and two
  versions are incomparable only when they agree on (major, minor, patch-or-0) and have the
  same suffix. The version with the smaller tuple is less; on a tie of the tuples a version
  with an empty suffix is greater than one with a non-empty suffix, and two non-empty
  suffixes are compared as strings.
\<close>

lemma RedisVersion_lt_strict_order:
  "\<not> RedisVersion_lt a a \<and>
   (RedisVersion_lt a b \<and> RedisVersion_lt b c \<longrightarrow> RedisVersion_lt a c) \<and>
   (RedisVersion_lt a b \<or> RedisVersion_lt b a \<or>
      (version_tuple a = version_tuple b \<and> suffix a = suffix b)) \<and>
   (version_tuple a < version_tuple b \<longrightarrow> RedisVersion_lt a b) \<and>
   (version_tuple a = version_tuple b \<and> suffix a \<noteq> [] \<and> suffix b = [] \<longrightarrow> RedisVersion_lt a b) \<and>
   (version_tuple a = version_tuple b \<and> suffix a \<noteq> [] \<and> suffix b \<noteq> [] \<longrightarrow>
      (RedisVersion_lt a b \<longleftrightarrow> suffix a < suffix b))"
proof -
  have "RedisVersion_lt a b \<and> RedisVersion_lt b c \<longrightarrow> RedisVersion_lt a c"
    using RedisVersion_lt_trans by blast
  moreover have "version_tuple a < version_tuple b \<longrightarrow> RedisVersion_lt a b"
    by (simp add: RedisVersion_lt_iff)
  moreover have "version_tuple a = version_tuple b \<and> suffix a \<noteq> [] \<and> suffix b = [] \<longrightarrow> RedisVersion_lt a b"
    by (simp add: RedisVersion_lt_iff)
  moreover have "version_tuple a = version_tuple b \<and> suffix a \<noteq> [] \<and> suffix b \<noteq> [] \<longrightarrow>
      (RedisVersion_lt a b \<longleftrightarrow> suffix a < suffix b)"
    by (simp add: RedisVersion_lt_iff)
  ultimately show ?thesis
    using RedisVersion_lt_irrefl [of a] RedisVersion_lt_total [of a b] by blast
qed

text \<open>
  At 8.2.1-m01, 8.2.1 and 8.2.2: the milestone is below the GA release of its
  patch, which is below the next patch, hence the milestone is below 8.2.2.
\<close>

lemma RedisVersion_lt_strict_order_example:
  "RedisVersion_lt \<lparr>major = 8, minor = 2, patch = Some 1, suffix = ''-m01''\<rparr>
                   \<lparr>major = 8, minor = 2, patch = Some 1, suffix = ''''\<rparr> \<and>
   RedisVersion_lt \<lparr>major = 8, minor = 2, patch = Some 1, suffix = ''''\<rparr>
                   \<lparr>major = 8, minor = 2, patch = Some 2, suffix = ''''\<rparr> \<and>
   RedisVersion_lt \<lparr>major = 8, minor = 2, patch = Some 1, suffix = ''-m01''\<rparr>
                   \<lparr>major = 8, minor = 2, patch = Some 2, suffix = ''''\<rparr>"
proof -
  let ?a = "\<lparr>major = 8, minor = 2, patch = Some 1, suffix = ''-m01''\<rparr>"
  let ?b = "\<lparr>major = 8, minor = 2, patch = Some 1, suffix = ''''\<rparr>"
  let ?c = "\<lparr>major = 8, minor = 2, patch = Some 2, suffix = ''''\<rparr>"
  have ab: "RedisVersion_lt ?a ?b"
    by (simp add: RedisVersion_lt_def version_tuple_def patch_or_0_def)
  have bc: "RedisVersion_lt ?b ?c"
    by (simp add: RedisVersion_lt_def version_tuple_def patch_or_0_def)
  from ab bc RedisVersion_lt_strict_order [of ?a ?b ?c] show ?thesis
    by blast
qed

text \<open>
  C1 at the versions 8.2.1rc1 and 8.2.1z. Both strings parse; the suffix \<^verbatim>\<open>rc1\<close> is of the
  rc class (weight 100 in \<^verbatim>\<open>sort_key\<close>) and \<^verbatim>\<open>z\<close> of no class (weight 0), so the
  specification puts 8.2.1rc1 above 8.2.1z, and so does the order of the sort keys. The
  comparison \<^verbatim>\<open>__lt__\<close> compares the two suffixes as strings and puts 8.2.1rc1 below 8.2.1z.
  The same happens with the m class, at 8.2.1m1 and 8.2.1z.
\<close>

theorem RedisVersion_lt_ignores_suffix_class:
  "parse ''8.2.1rc1'' = Inr \<lparr>major = 8, minor = 2, patch = Some 1, suffix = ''rc1''\<rparr> \<and>
   parse ''8.2.1z'' = Inr \<lparr>major = 8, minor = 2, patch = Some 1, suffix = ''z''\<rparr> \<and>
   suffix_weight ''rc1'' = 100 \<and> suffix_weight ''z'' = 0 \<and>
   sort_key_of \<lparr>major = 8, minor = 2, patch = Some 1, suffix = ''z''\<rparr>
     < sort_key_of \<lparr>major = 8, minor = 2, patch = Some 1, suffix = ''rc1''\<rparr> \<and>
   RedisVersion_lt \<lparr>major = 8, minor = 2, patch = Some 1, suffix = ''rc1''\<rparr>
                   \<lparr>major = 8, minor = 2, patch = Some 1, suffix = ''z''\<rparr> \<and>
   \<not> RedisVersion_lt \<lparr>major = 8, minor = 2, patch = Some 1, suffix = ''z''\<rparr>
                     \<lparr>major = 8, minor = 2, patch = Some 1, suffix = ''rc1''\<rparr> \<and>
   parse ''8.2.1m1'' = Inr \<lparr>major = 8, minor = 2, patch = Some 1, suffix = ''m1''\<rparr> \<and>
   suffix_weight ''m1'' = 50 \<and>
   RedisVersion_lt \<lparr>major = 8, minor = 2, patch = Some 1, suffix = ''m1''\<rparr>
                   \<lparr>major = 8, minor = 2, patch = Some 1, suffix = ''z''\<rparr>"
  by code_simp

section \<open>Parsing\<close>

lemma foldl_digits_ge: "acc \<le> foldl (\<lambda>acc c. 10 * acc + (of_char c - 48)) (acc::nat) s"
proof (induction s arbitrary: acc)
  case Nil
  then show ?case by simp
next
  case (Cons c s)
  have "acc \<le> 10 * acc + (of_char c - 48)" by simp
  also have "\<dots> \<le> foldl (\<lambda>acc c. 10 * acc + (of_char c - 48)) (10 * acc + (of_char c - 48)) s"
    by (rule Cons.IH)
  finally show ?case by simp
qed

lemma nonzero_digit_value:
  assumes "is_digit c" and "c \<noteq> CHR ''0''"
  shows "1 \<le> (of_char c :: nat) - 48"
proof -
  from assms(1) have "48 \<le> (of_char c :: nat)"
    by (simp add: is_digit_def less_eq_char_def)
  moreover have "(of_char c :: nat) \<noteq> 48"
  proof
    assume "(of_char c :: nat) = 48"
    then have "(of_char c :: nat) = of_char CHR ''0''" by simp
    then have "c = CHR ''0''" by (simp only: of_char_eq_iff)
    with assms(2) show False by simp
  qed
  ultimately show ?thesis by simp
qed

lemma int_of_digits_ge_1:
  assumes "s \<noteq> []" and "is_digit (hd s)" and "hd s \<noteq> CHR ''0''"
  shows "1 \<le> int_of_digits s"
proof -
  from assms(1) obtain c cs where s: "s = c # cs" by (cases s) auto
  with assms have "1 \<le> (of_char c :: nat) - 48" using nonzero_digit_value [of c] by simp
  also have "\<dots> \<le> foldl (\<lambda>acc c. 10 * acc + (of_char c - 48)) (of_char c - 48) cs"
    by (rule foldl_digits_ge)
  finally show ?thesis by (simp add: int_of_digits_def s)
qed

lemma hd_takeWhile: "takeWhile P xs \<noteq> [] \<Longrightarrow> P (hd (takeWhile P xs))"
  by (cases xs) (auto split: if_splits)

text \<open>A parsed version has a major of at least 1.\<close>

lemma parse_major_ge_1:
  assumes "parse s = Inr v"
  shows "1 \<le> major v"
proof -
  define ms where "ms = takeWhile is_digit (dropWhile (\<lambda>c. c = CHR ''v'') s)"
  from assms have ne: "ms \<noteq> []" and nz: "hd ms \<noteq> CHR ''0''" and m: "major v = int_of_digits ms"
    by (auto simp: parse_def Let_def ms_def split: if_splits list.splits)
  from ne have "is_digit (hd ms)" unfolding ms_def by (rule hd_takeWhile)
  with ne nz m show ?thesis using int_of_digits_ge_1 [of ms] by simp
qed

lemma dot_not_digit: "\<not> is_digit CHR ''.''"
  by (simp add: is_digit_def less_eq_char_def)

lemma takeWhile_digits_dot:
  "list_all is_digit ma \<Longrightarrow> takeWhile is_digit (ma @ CHR ''.'' # xs) = ma"
  by (induction ma) (simp_all add: dot_not_digit)

lemma dropWhile_digits_dot:
  "list_all is_digit ma \<Longrightarrow> dropWhile is_digit (ma @ CHR ''.'' # xs) = CHR ''.'' # xs"
  by (induction ma) (simp_all add: dot_not_digit)

lemma takeWhile_prefix_nonempty:
  "mi \<noteq> [] \<Longrightarrow> list_all is_digit mi \<Longrightarrow> takeWhile is_digit (mi @ rest) \<noteq> []"
  by (cases mi) simp_all

text \<open>
  Parsing succeeds exactly on the strings that have the format once every leading
  \<^verbatim>\<open>v\<close> is removed.
\<close>

lemma parse_succeeds_iff:
  "(\<exists>v. parse s = Inr v) \<longleftrightarrow> version_format (dropWhile (\<lambda>c. c = CHR ''v'') s)"
proof
  assume "\<exists>v. parse s = Inr v"
  then obtain v where v: "parse s = Inr v" ..
  let ?r = "dropWhile (\<lambda>c. c = CHR ''v'') s"
  from v obtain r2 where ma: "takeWhile is_digit ?r \<noteq> []" "hd (takeWhile is_digit ?r) \<noteq> CHR ''0''"
    and r1: "dropWhile is_digit ?r = CHR ''.'' # r2" and mi: "takeWhile is_digit r2 \<noteq> []"
    by (auto simp: parse_def Let_def split: if_splits list.splits)
  have "?r = takeWhile is_digit ?r @ dropWhile is_digit ?r" by simp
  also have "\<dots> = takeWhile is_digit ?r @ CHR ''.'' # takeWhile is_digit r2 @ dropWhile is_digit r2"
    by (simp add: r1)
  finally have "?r = takeWhile is_digit ?r @ CHR ''.'' # takeWhile is_digit r2 @ dropWhile is_digit r2" .
  moreover have "list_all is_digit (takeWhile is_digit ?r)" "list_all is_digit (takeWhile is_digit r2)"
    by (auto simp: list_all_iff dest: set_takeWhileD)
  ultimately show "version_format ?r"
    unfolding version_format_def using ma mi by blast
next
  let ?r = "dropWhile (\<lambda>c. c = CHR ''v'') s"
  assume "version_format ?r"
  then obtain ma mi rest where r: "?r = ma @ CHR ''.'' # mi @ rest"
    and ma: "ma \<noteq> []" "list_all is_digit ma" "hd ma \<noteq> CHR ''0''"
    and mi: "mi \<noteq> []" "list_all is_digit mi"
    unfolding version_format_def by blast
  from ma(2) have t: "takeWhile is_digit ?r = ma" and d: "dropWhile is_digit ?r = CHR ''.'' # mi @ rest"
    unfolding r by (rule takeWhile_digits_dot, rule dropWhile_digits_dot)
  from mi have m: "takeWhile is_digit (mi @ rest) \<noteq> []" by (rule takeWhile_prefix_nonempty)
  show "\<exists>v. parse s = Inr v"
    using ma(1,3) m by (simp add: parse_def Let_def t d split: list.splits)
qed

text \<open>
  C9 at the input \<^verbatim>\<open>vv8.2.1\<close>: \<^verbatim>\<open>lstrip("v")\<close> removes both leading letters, and the
  string is parsed as 8.2.1 instead of being rejected.
\<close>

theorem parse_repeated_v_prefix:
  "parse ''vv8.2.1'' = Inr \<lparr>major = 8, minor = 2, patch = Some 1, suffix = ''''\<rparr>"
  by code_simp

section \<open>Tag discovery\<close>

text \<open>
  C2 at the tags v8.10.0 and v8.9.0: the sort compares the keys \<^verbatim>\<open>8.10.0.0.\<close> and
  \<^verbatim>\<open>8.9.0.0.\<close> as strings, so 8.9.0 is moved to the front although it is the smaller
  version. At the tags v8.2.1 and v8.2.1-m01 the key of the milestone, \<^verbatim>\<open>8.2.1.0.-m01\<close>, is
  the greater string, so the milestone is moved before the GA release of its patch.
\<close>

theorem get_redis_versions_from_tags_minor_10_after_9:
  "get_redis_versions_from_tags [(''c1'', ''refs/tags/v8.10.0''), (''c2'', ''refs/tags/v8.9.0'')] 8 =
     [(\<lparr>major = 8, minor = 9, patch = Some 0, suffix = ''''\<rparr>, ''c2'', ''refs/tags/v8.9.0''),
      (\<lparr>major = 8, minor = 10, patch = Some 0, suffix = ''''\<rparr>, ''c1'', ''refs/tags/v8.10.0'')] \<and>
   RedisVersion_lt \<lparr>major = 8, minor = 9, patch = Some 0, suffix = ''''\<rparr>
                   \<lparr>major = 8, minor = 10, patch = Some 0, suffix = ''''\<rparr> \<and>
   get_redis_versions_from_tags [(''c1'', ''refs/tags/v8.2.1''), (''c2'', ''refs/tags/v8.2.1-m01'')] 8 =
     [(\<lparr>major = 8, minor = 2, patch = Some 1, suffix = ''-m01''\<rparr>, ''c2'', ''refs/tags/v8.2.1-m01''),
      (\<lparr>major = 8, minor = 2, patch = Some 1, suffix = ''''\<rparr>, ''c1'', ''refs/tags/v8.2.1'')] \<and>
   RedisVersion_lt \<lparr>major = 8, minor = 2, patch = Some 1, suffix = ''-m01''\<rparr>
                   \<lparr>major = 8, minor = 2, patch = Some 1, suffix = ''''\<rparr>"
  by code_simp

section \<open>Tag derivation\<close>

lemma str_nat_examples:
  "str_nat (Suc 0) = ''1''" "str_nat 1 = ''1''" "str_nat 2 = ''2''" "str_nat 8 = ''8''"
  by code_simp+

text \<open>
  C4. The tags of a release are those of the reference of section 4.4, in the order of
  emission; 8.2.1 on debian/bookworm, latest, gets 8.2.1, 8.2, 8, 8.2.1-bookworm,
  8.2-bookworm, 8-bookworm, latest and bookworm.
\<close>

theorem generate_tags_for_release_reference:
  "generate_tags_for_release release is_latest = reference_tags release is_latest \<and>
   generate_tags_for_release
     \<lparr>Release.commit = c, Release.version = \<lparr>major = 8, minor = 2, patch = Some 1, suffix = ''''\<rparr>,
      Release.distribution = \<lparr>type = DEBIAN, name = ''bookworm''\<rparr>, Release.git_fetch_ref = g\<rparr> True =
     [''8.2.1'', ''8.2'', ''8'', ''8.2.1-bookworm'', ''8.2-bookworm'', ''8-bookworm'', ''latest'', ''bookworm'']"
proof
  show "generate_tags_for_release release is_latest = reference_tags release is_latest"
    by (simp add: generate_tags_for_release_def reference_tags_def reference_version_tags_def Let_def)
next
  show "generate_tags_for_release
     \<lparr>Release.commit = c, Release.version = \<lparr>major = 8, minor = 2, patch = Some 1, suffix = ''''\<rparr>,
      Release.distribution = \<lparr>type = DEBIAN, name = ''bookworm''\<rparr>, Release.git_fetch_ref = g\<rparr> True =
     [''8.2.1'', ''8.2'', ''8'', ''8.2.1-bookworm'', ''8.2-bookworm'', ''8-bookworm'', ''latest'', ''bookworm'']"
    by (simp add: generate_tags_for_release_def Let_def str_version_def mainline_version_def
        is_milestone_def is_default_def tag_names_def str_nat_examples)
qed

lemma generate_tags_first:
  "\<exists>rest. generate_tags_for_release release is_latest =
     (if is_default (Release.distribution release) then str_version (Release.version release)
      else str_version (Release.version release) @ ''-alpine'') # rest"
proof (cases "type (Release.distribution release)")
  case ALPINE
  then show ?thesis
    by (simp add: generate_tags_for_release_def Let_def is_default_def tag_names_def DistroType_value_def)
next
  case DEBIAN
  then show ?thesis
    by (simp add: generate_tags_for_release_def Let_def is_default_def tag_names_def)
qed

lemma generate_tags_nonempty: "generate_tags_for_release release is_latest \<noteq> []"
  using generate_tags_first [of release is_latest] by auto

lemma library_loop_eq:
  "library_loop st releases entries =
     entries @ map (\<lambda>(r, b). make_entry r (generate_tags_for_release r b))
                   (zip releases (latest_flags st releases))"
  by (induction releases arbitrary: st entries) (simp_all add: Let_def generate_tags_nonempty)

lemma length_latest_flags: "length (latest_flags st releases) = length releases"
  by (induction releases arbitrary: st) simp_all

lemma map_fields_zip:
  "length bs = length rs \<Longrightarrow>
   map entry_fields (map (\<lambda>(r, b). make_entry r (f r b)) (zip rs bs)) = map release_fields rs"
  by (induction bs rs rule: list_induct2) (simp_all add: entry_fields_def release_fields_def make_entry_def)

text \<open>
  C10. The tag list of a release is never empty and starts with the version string, bare for
  debian and suffixed with \<^verbatim>\<open>-alpine\<close> for alpine; so the library has one entry per
  release, in the order of the releases, each carrying the fields of its release.
\<close>

theorem generate_stackbrew_library_one_entry_per_release:
  "generate_tags_for_release release is_latest \<noteq> [] \<and>
   (\<exists>rest. generate_tags_for_release release is_latest =
      (if is_default (Release.distribution release) then str_version (Release.version release)
       else str_version (Release.version release) @ ''-alpine'') # rest) \<and>
   generate_stackbrew_library releases =
     map (\<lambda>(r, b). make_entry r (generate_tags_for_release r b))
         (zip releases (latest_flags initial_state releases)) \<and>
   length (generate_stackbrew_library releases) = length releases \<and>
   map entry_fields (generate_stackbrew_library releases) = map release_fields releases"
proof -
  have eq: "generate_stackbrew_library releases =
     map (\<lambda>(r, b). make_entry r (generate_tags_for_release r b))
         (zip releases (latest_flags initial_state releases))"
    by (simp add: generate_stackbrew_library_def library_loop_eq)
  have len: "length (generate_stackbrew_library releases) = length releases"
    by (simp add: eq length_latest_flags)
  have flds: "map entry_fields (generate_stackbrew_library releases) = map release_fields releases"
    unfolding eq by (rule map_fields_zip) (simp add: length_latest_flags)
  from eq len flds generate_tags_first [of release is_latest] generate_tags_nonempty [of release is_latest]
  show ?thesis by blast
qed

lemma latest_step_cleared: "cleared st \<Longrightarrow> latest_step st r = st"
  by (simp add: cleared_def latest_step_def)

lemma latest_flags_cleared: "cleared st \<Longrightarrow> latest_flags st rs = replicate (length rs) False"
  by (induction rs) (simp_all add: latest_step_cleared, simp add: cleared_def is_latest_in_def)

lemma latest_flags_append:
  "latest_flags st (xs @ ys) = latest_flags st xs @ latest_flags (foldl latest_step st xs) ys"
  by (induction xs arbitrary: st) simp_all

lemma foldl_milestones:
  "list_all (\<lambda>r. is_milestone (Release.version r)) pre \<Longrightarrow>
   foldl latest_step initial_state pre = initial_state"
  by (induction pre) (simp_all add: latest_step_def initial_state_def)

lemma latest_step_pinned_or_cleared:
  "pinned_or_cleared m st \<Longrightarrow> pinned_or_cleared m (latest_step st r)"
  by (auto simp: pinned_or_cleared_def latest_step_def)

lemma foldl_pinned_or_cleared:
  "pinned_or_cleared m st \<Longrightarrow> pinned_or_cleared m (foldl latest_step st rs)"
  by (induction rs arbitrary: st) (simp_all add: latest_step_pinned_or_cleared)

lemma latest_step_clears:
  "pinned_or_cleared m st \<Longrightarrow> minor (Release.version d) \<noteq> m \<Longrightarrow> cleared (latest_step st d)"
  by (auto simp: pinned_or_cleared_def latest_step_def cleared_def)

text \<open>
  C5. In a scan that starts with milestones only, then meets a GA release (which sets the
  pin) and later a release of another minor (which clears it at the latest), that release
  and every release after it are not latest, whatever they are.
\<close>

theorem latest_pin_never_rearms:
  assumes pre: "list_all (\<lambda>r. is_milestone (Release.version r)) pre"
    and g: "\<not> is_milestone (Release.version g)"
    and d: "minor (Release.version d) \<noteq> minor (Release.version g)"
  shows "latest_flags initial_state (pre @ g # mid @ d # post) =
           latest_flags initial_state (pre @ g # mid) @ replicate (Suc (length post)) False"
proof -
  let ?s1 = "foldl latest_step initial_state (pre @ g # mid)"
  have "foldl latest_step initial_state (pre @ [g]) = latest_step initial_state g"
    using pre by (simp add: foldl_milestones)
  moreover have "pinned_or_cleared (minor (Release.version g)) (latest_step initial_state g)"
    using g by (simp add: latest_step_def initial_state_def pinned_or_cleared_def)
  ultimately have "pinned_or_cleared (minor (Release.version g)) ?s1"
    by (simp add: foldl_pinned_or_cleared)
  with d have c: "cleared (latest_step ?s1 d)"
    by (simp add: latest_step_clears)
  then have "latest_flags ?s1 (d # post) = replicate (Suc (length post)) False"
    by (simp add: latest_flags_cleared) (simp add: cleared_def is_latest_in_def)
  moreover have "latest_flags initial_state (pre @ g # mid @ d # post) =
      latest_flags initial_state (pre @ g # mid) @ latest_flags ?s1 (d # post)"
    using latest_flags_append [of initial_state "pre @ g # mid" "d # post"] by simp
  ultimately show ?thesis by simp
qed

text \<open>
  The theorem on the scan 8.3.0-m01, 8.2.1, 8.1.0, 8.2.0: only 8.2.1 is latest; 8.2.0, of
  the pinned minor, comes after the pin was cleared and is not.
\<close>

theorem latest_pin_never_rearms_witness:
  "latest_flags initial_state
     [\<lparr>Release.commit = ''a'', Release.version = \<lparr>major = 8, minor = 3, patch = Some 0, suffix = ''-m01''\<rparr>,
       Release.distribution = \<lparr>type = DEBIAN, name = ''bookworm''\<rparr>, Release.git_fetch_ref = ''ra''\<rparr>,
      \<lparr>Release.commit = ''b'', Release.version = \<lparr>major = 8, minor = 2, patch = Some 1, suffix = ''''\<rparr>,
       Release.distribution = \<lparr>type = DEBIAN, name = ''bookworm''\<rparr>, Release.git_fetch_ref = ''rb''\<rparr>,
      \<lparr>Release.commit = ''c'', Release.version = \<lparr>major = 8, minor = 1, patch = Some 0, suffix = ''''\<rparr>,
       Release.distribution = \<lparr>type = DEBIAN, name = ''bookworm''\<rparr>, Release.git_fetch_ref = ''rc''\<rparr>,
      \<lparr>Release.commit = ''d'', Release.version = \<lparr>major = 8, minor = 2, patch = Some 0, suffix = ''''\<rparr>,
       Release.distribution = \<lparr>type = DEBIAN, name = ''bookworm''\<rparr>, Release.git_fetch_ref = ''rd''\<rparr>]
   = [False, True, False, False]"
  using latest_pin_never_rearms
    [of "[\<lparr>Release.commit = ''a'', Release.version = \<lparr>major = 8, minor = 3, patch = Some 0, suffix = ''-m01''\<rparr>,
           Release.distribution = \<lparr>type = DEBIAN, name = ''bookworm''\<rparr>, Release.git_fetch_ref = ''ra''\<rparr>]"
        "\<lparr>Release.commit = ''b'', Release.version = \<lparr>major = 8, minor = 2, patch = Some 1, suffix = ''''\<rparr>,
          Release.distribution = \<lparr>type = DEBIAN, name = ''bookworm''\<rparr>, Release.git_fetch_ref = ''rb''\<rparr>"
        "\<lparr>Release.commit = ''c'', Release.version = \<lparr>major = 8, minor = 1, patch = Some 0, suffix = ''''\<rparr>,
          Release.distribution = \<lparr>type = DEBIAN, name = ''bookworm''\<rparr>, Release.git_fetch_ref = ''rc''\<rparr>"
        "[]"
        "[\<lparr>Release.commit = ''d'', Release.version = \<lparr>major = 8, minor = 2, patch = Some 0, suffix = ''''\<rparr>,
           Release.distribution = \<lparr>type = DEBIAN, name = ''bookworm''\<rparr>, Release.git_fetch_ref = ''rd''\<rparr>]"]
  by (simp add: is_milestone_def latest_step_def initial_state_def is_latest_in_def)

section \<open>Dropping end-of-life lines\<close>

lemma keys_dict_append: "fst ` set (dict_append k e d) = insert k (fst ` set d)"
  by (induction d) force+

lemma well_grouped_dict_append:
  "well_grouped d \<Longrightarrow> well_grouped (dict_append (minor_line e) e d)"
  by (induction d) (auto simp: well_grouped_def keys_dict_append)

lemma mset_flat_dict_append: "mset (flat (dict_append k e d)) = add_mset e (mset (flat d))"
  by (induction d) (auto simp: flat_def)

lemma well_grouped_group_by_minor:
  "well_grouped d \<Longrightarrow> well_grouped (group_by_minor d versions)"
  by (induction versions arbitrary: d) (simp_all add: well_grouped_dict_append)

lemma mset_flat_group_by_minor:
  "mset (flat (group_by_minor d versions)) = mset (flat d) + mset versions"
  by (induction versions arbitrary: d) (simp_all add: mset_flat_dict_append)

lemma keep_groups_eq_filter:
  assumes "distinct (map fst d)" and "list_all (\<lambda>(k, g). list_all (\<lambda>e. minor_line e = k) g) d"
    and "\<And>k g. (k, g) \<in> set d \<Longrightarrow> has_eol g = Q k"
  shows "keep_groups d = filter (\<lambda>e. \<not> Q (minor_line e)) (flat d)"
  using assms
proof (induction d)
  case Nil
  then show ?case by (simp add: flat_def)
next
  case (Cons p d)
  obtain k g where p: "p = (k, g)" by (cases p)
  from Cons.prems p have g: "list_all (\<lambda>e. minor_line e = k) g" and hk: "has_eol g = Q k" by auto
  from g have fg: "filter (\<lambda>e. \<not> Q (minor_line e)) g = (if Q k then [] else g)"
    by (induction g) auto
  from Cons have "keep_groups d = filter (\<lambda>e. \<not> Q (minor_line e)) (flat d)" by auto
  with p hk fg show ?case by (simp add: flat_def)
qed

lemma has_eol_group:
  assumes "well_grouped d" and "(k, g) \<in> set d"
  shows "has_eol g = list_ex (\<lambda>e'. minor_line e' = k \<and> is_eol (fst e')) (flat d)"
proof
  assume "has_eol g"
  then obtain e where "e \<in> set g" "is_eol (fst e)" by (auto simp: has_eol_def list_ex_iff)
  moreover from assms this(1) have "minor_line e = k" by (auto simp: well_grouped_def list_all_iff)
  moreover from assms(2) \<open>e \<in> set g\<close> have "e \<in> set (flat d)" by (force simp: flat_def)
  ultimately show "list_ex (\<lambda>e'. minor_line e' = k \<and> is_eol (fst e')) (flat d)"
    by (auto simp: list_ex_iff)
next
  assume "list_ex (\<lambda>e'. minor_line e' = k \<and> is_eol (fst e')) (flat d)"
  then obtain e k' g' where e: "minor_line e = k" "is_eol (fst e)" "(k', g') \<in> set d" "e \<in> set g'"
    by (auto simp: list_ex_iff flat_def)
  with assms(1) have "k' = k" by (auto simp: well_grouped_def list_all_iff)
  with assms e have "g' = g" by (auto simp: well_grouped_def dest: eq_key_imp_eq_value)
  with e show "has_eol g" by (auto simp: has_eol_def list_ex_iff)
qed

lemma keep_groups_group_by_minor:
  "mset (keep_groups (group_by_minor [] versions)) = mset (filter (\<lambda>e. \<not> eol_line versions e) versions)"
proof -
  let ?d = "group_by_minor [] versions"
  have wg: "well_grouped ?d"
    by (rule well_grouped_group_by_minor) (simp add: well_grouped_def)
  have ms: "mset (flat ?d) = mset versions"
    using mset_flat_group_by_minor [of "[]" versions] by (simp add: flat_def)
  then have st: "set (flat ?d) = set versions" by (rule mset_eq_setD)
  have "keep_groups ?d = filter (\<lambda>e. \<not> list_ex (\<lambda>e'. minor_line e' = minor_line e \<and> is_eol (fst e')) (flat ?d)) (flat ?d)"
    using wg by (intro keep_groups_eq_filter) (auto simp: well_grouped_def has_eol_group [OF wg])
  also have "\<dots> = filter (\<lambda>e. \<not> eol_line versions e) (flat ?d)"
    by (simp add: eol_line_def list_ex_iff st)
  finally have "mset (keep_groups ?d) = filter_mset (\<lambda>e. \<not> eol_line versions e) (mset (flat ?d))"
    by simp
  with ms show ?thesis by simp
qed

lemma mset_sort_newest_first: "mset (sort_newest_first xs) = mset xs"
  by (simp add: sort_newest_first_def)

lemma filter_eol_versions_example:
  "filter_eol_versions
     [(\<lparr>major = 8, minor = 1, patch = Some 0, suffix = ''-eol''\<rparr>, ''c0'', ''refs/tags/v8.1.0-eol''),
      (\<lparr>major = 8, minor = 1, patch = Some 2, suffix = ''''\<rparr>, ''c1'', ''refs/tags/v8.1.2''),
      (\<lparr>major = 8, minor = 1, patch = Some 0, suffix = ''''\<rparr>, ''c2'', ''refs/tags/v8.1.0'')] = []"
  by code_simp

text \<open>
  C6. The result of \<^verbatim>\<open>filter_eol_versions\<close> holds, with their multiplicity, exactly the
  entries of the input whose minor line has no end-of-life version in the input; the list
  8.1.0-eol, 8.1.2, 8.1.0 is dropped as a whole.
\<close>

theorem filter_eol_versions_drops_eol_lines:
  "mset (filter_eol_versions versions) = mset (filter (\<lambda>e. \<not> eol_line versions e) versions) \<and>
   filter_eol_versions
     [(\<lparr>major = 8, minor = 1, patch = Some 0, suffix = ''-eol''\<rparr>, ''c0'', ''refs/tags/v8.1.0-eol''),
      (\<lparr>major = 8, minor = 1, patch = Some 2, suffix = ''''\<rparr>, ''c1'', ''refs/tags/v8.1.2''),
      (\<lparr>major = 8, minor = 1, patch = Some 0, suffix = ''''\<rparr>, ''c2'', ''refs/tags/v8.1.0'')] = []"
  using filter_eol_versions_example
  by (simp add: filter_eol_versions_def mset_sort_newest_first keep_groups_group_by_minor)

section \<open>Keeping the latest version of each line\<close>

lemma keys_patch_insert: "fst ` set (patch_insert k e d) = insert k (fst ` set d)"
  by (induction d) force+

lemma distinct_patch_insert: "distinct (map fst d) \<Longrightarrow> distinct (map fst (patch_insert k e d))"
  by (induction d) (force simp: keys_patch_insert)+

lemma list_all_patch_insert:
  "list_all (\<lambda>(k, e). patch_key_of e = k) d \<Longrightarrow>
   list_all (\<lambda>(k, e). patch_key_of e = k) (patch_insert (patch_key_of e) e d)"
  by (induction d) auto

lemma keyed_patch_insert: "keyed d \<Longrightarrow> keyed (patch_insert (patch_key_of e) e d)"
  by (simp add: keyed_def distinct_patch_insert list_all_patch_insert)

lemma keyed_collect: "keyed d \<Longrightarrow> keyed (collect_patch_versions d versions)"
  by (induction versions arbitrary: d) (simp_all add: keyed_patch_insert)

lemma map_of_patch_insert:
  "map_of (patch_insert k e d) k' =
     (if k' \<noteq> k then map_of d k'
      else (case map_of d k of
              None \<Rightarrow> Some e
            | Some e' \<Rightarrow> if is_milestone (fst e') \<and> \<not> is_milestone (fst e) then Some e else Some e'))"
  by (induction d) auto

lemma map_of_collect:
  "map_of (collect_patch_versions d versions) k =
     (case map_of d k of
        None \<Rightarrow> chosen versions k
      | Some e0 \<Rightarrow>
          if is_milestone (fst e0)
          then (case find (\<lambda>e. patch_key_of e = k \<and> \<not> is_milestone (fst e)) versions of
                  Some g \<Rightarrow> Some g | None \<Rightarrow> Some e0)
          else Some e0)"
proof (induction versions arbitrary: d)
  case Nil
  then show ?case by (simp add: chosen_def split: option.splits)
next
  case (Cons e versions)
  show ?case
    by (simp add: Cons.IH map_of_patch_insert chosen_def split: option.splits)
qed

lemma patch_versions_chosen:
  assumes "e \<in> set (patch_versions versions)"
  shows "chosen versions (patch_key_of e) = Some e"
proof -
  let ?d = "collect_patch_versions [] versions"
  have k: "keyed ?d" by (rule keyed_collect) (simp add: keyed_def)
  from assms obtain k where ke: "(k, e) \<in> set ?d" by (auto simp: patch_versions_def)
  with k have "k = patch_key_of e" by (auto simp: keyed_def list_all_iff)
  moreover from k ke have "map_of ?d k = Some e" by (simp add: keyed_def)
  ultimately show ?thesis using map_of_collect [of "[]" versions k] by simp
qed

lemma distinct_patch_versions: "distinct (map patch_key_of (patch_versions versions))"
proof -
  let ?d = "collect_patch_versions [] versions"
  have k: "keyed ?d" by (rule keyed_collect) (simp add: keyed_def)
  then have eq: "map (patch_key_of \<circ> snd) ?d = map fst ?d"
    by (auto simp: keyed_def list_all_iff)
  have "distinct (map (patch_key_of \<circ> snd) ?d)"
    by (subst eq) (use k in \<open>simp add: keyed_def\<close>)
  then show ?thesis by (simp add: patch_versions_def)
qed

lemma subseq_keep_until_ga: "subseq (keep_until_ga S es) es"
  by (induction es arbitrary: S) (auto simp: Let_def)

lemma set_keep_until_ga: "set (keep_until_ga S es) \<subseteq> set es"
  by (induction es arbitrary: S) auto

lemma distinct_subseq: "subseq xs ys \<Longrightarrow> distinct ys \<Longrightarrow> distinct xs"
  using subseqs_distinctD [of xs ys] by simp

lemma keep_until_ga_not_in: "e \<in> set (keep_until_ga S es) \<Longrightarrow> minor_line e \<notin> S"
  by (induction es arbitrary: S) (auto split: if_splits)

lemma keep_until_ga_after_ga:
  "keep_until_ga S es = xs @ g # ys \<Longrightarrow> \<not> is_milestone (fst g) \<Longrightarrow> e \<in> set ys \<Longrightarrow> minor_line e \<noteq> minor_line g"
proof (induction es arbitrary: S xs)
  case Nil
  then show ?case by simp
next
  case (Cons a es)
  show ?case
  proof (cases "minor_line a \<in> S")
    case True
    with Cons show ?thesis by auto
  next
    case False
    let ?S' = "if \<not> is_milestone (fst a) then insert (minor_line a) S else S"
    from False Cons.prems(1) have eq: "a # keep_until_ga ?S' es = xs @ g # ys" by simp
    show ?thesis
    proof (cases xs)
      case Nil
      with eq Cons.prems(2) have "a = g" "ys = keep_until_ga (insert (minor_line g) S) es" by auto
      with Cons.prems(3) show ?thesis using keep_until_ga_not_in by blast
    next
      case (Cons b xs')
      with eq have "keep_until_ga ?S' es = xs' @ g # ys" by (cases "is_milestone (fst a)") auto
      from Cons.IH [OF this Cons.prems(2,3)] show ?thesis .
    qed
  qed
qed

lemma keep_until_ga_iff:
  "e \<in> set (keep_until_ga S es) \<longleftrightarrow>
     (\<exists>xs ys. es = xs @ e # ys \<and> minor_line e \<notin> S \<and> (\<forall>g\<in>set xs. minor_line g = minor_line e \<longrightarrow> is_milestone (fst g)))"
proof (induction es arbitrary: S)
  case Nil
  then show ?case by simp
next
  case (Cons a es)
  let ?S' = "if \<not> is_milestone (fst a) then insert (minor_line a) S else S"
  let ?R = "\<lambda>S es. \<exists>xs ys. es = xs @ e # ys \<and> minor_line e \<notin> S \<and> (\<forall>g\<in>set xs. minor_line g = minor_line e \<longrightarrow> is_milestone (fst g))"
  have step: "?R S (a # es) \<longleftrightarrow> (a = e \<and> minor_line e \<notin> S) \<or> ((minor_line a = minor_line e \<longrightarrow> is_milestone (fst a)) \<and> ?R S es)"
  proof
    assume "?R S (a # es)"
    then obtain xs ys where d: "a # es = xs @ e # ys" "minor_line e \<notin> S"
      "\<forall>g\<in>set xs. minor_line g = minor_line e \<longrightarrow> is_milestone (fst g)" by blast
    show "(a = e \<and> minor_line e \<notin> S) \<or> ((minor_line a = minor_line e \<longrightarrow> is_milestone (fst a)) \<and> ?R S es)"
    proof (cases xs)
      case Nil
      with d show ?thesis by simp
    next
      case (Cons b xs')
      with d have "es = xs' @ e # ys" "a = b" by auto
      with d Cons show ?thesis by auto
    qed
  next
    assume "(a = e \<and> minor_line e \<notin> S) \<or> ((minor_line a = minor_line e \<longrightarrow> is_milestone (fst a)) \<and> ?R S es)"
    then show "?R S (a # es)"
    proof
      assume "a = e \<and> minor_line e \<notin> S"
      then have "a # es = [] @ e # es \<and> minor_line e \<notin> S \<and> (\<forall>g\<in>set []. minor_line g = minor_line e \<longrightarrow> is_milestone (fst g))"
        by simp
      then show ?thesis by blast
    next
      assume "(minor_line a = minor_line e \<longrightarrow> is_milestone (fst a)) \<and> ?R S es"
      then obtain xs ys where d: "es = xs @ e # ys" "minor_line e \<notin> S"
        "\<forall>g\<in>set xs. minor_line g = minor_line e \<longrightarrow> is_milestone (fst g)" "minor_line a = minor_line e \<longrightarrow> is_milestone (fst a)" by blast
      then have "a # es = (a # xs) @ e # ys \<and> minor_line e \<notin> S \<and>
        (\<forall>g\<in>set (a # xs). minor_line g = minor_line e \<longrightarrow> is_milestone (fst g))" by simp
      then show ?thesis by blast
    qed
  qed
  show ?case
  proof (cases "minor_line a \<in> S")
    case True
    then have "e \<in> set (keep_until_ga S (a # es)) \<longleftrightarrow> ?R S es" by (simp add: Cons.IH)
    moreover from True have "?R S (a # es) \<longleftrightarrow> ?R S es"
      unfolding step by (cases "minor_line a = minor_line e") auto
    ultimately show ?thesis by simp
  next
    case False
    then have A: "e \<in> set (keep_until_ga S (a # es)) \<longleftrightarrow> a = e \<or> e \<in> set (keep_until_ga ?S' es)"
      by auto
    have B: "e \<in> set (keep_until_ga ?S' es) \<longleftrightarrow> ?R ?S' es"
      by (rule Cons.IH)
    have C: "?R ?S' es \<longleftrightarrow> (minor_line a = minor_line e \<longrightarrow> is_milestone (fst a)) \<and> ?R S es"
      by (cases "is_milestone (fst a)") auto
    from False have D: "a = e \<Longrightarrow> minor_line e \<notin> S" by simp
    show ?thesis unfolding A B C step using D by blast
  qed
qed

lemma map_fst_patch_insert:
  "map fst (patch_insert k e d) = (if k \<in> set (map fst d) then map fst d else map fst d @ [k])"
  by (induction d) (force split: if_splits)+

lemma map_fst_collect:
  "map fst (collect_patch_versions d versions) =
     map fst d @ firsts (set (map fst d)) (map patch_key_of versions)"
proof (induction versions arbitrary: d)
  case Nil
  then show ?case by simp
next
  case (Cons e versions)
  show ?case
    by (simp add: Cons.IH map_fst_patch_insert del: set_map)
qed

lemma firsts_not_in: "b \<in> set (firsts S ks) \<Longrightarrow> b \<notin> S"
  by (induction ks arbitrary: S) (auto split: if_splits)

lemma firsts_order:
  "firsts S ks = X @ a # Y \<Longrightarrow> b \<in> set Y \<Longrightarrow> \<exists>A B. ks = A @ a # B \<and> b \<notin> set A"
proof (induction ks arbitrary: S X)
  case Nil
  then show ?case by simp
next
  case (Cons k ks)
  show ?case
  proof (cases "k \<in> S")
    case True
    with Cons.prems have eq: "firsts S ks = X @ a # Y" by simp
    from Cons.IH [OF eq Cons.prems(2)] obtain A B where AB: "ks = A @ a # B" "b \<notin> set A" by blast
    from eq Cons.prems(2) have "b \<in> set (firsts S ks)" by simp
    then have "b \<notin> S" by (rule firsts_not_in)
    with True have "b \<noteq> k" by auto
    with AB have "k # ks = (k # A) @ a # B \<and> b \<notin> set (k # A)" by simp
    then show ?thesis by blast
  next
    case False
    with Cons.prems have eq: "k # firsts (insert k S) ks = X @ a # Y" by simp
    show ?thesis
    proof (cases X)
      case Nil
      with eq have "k # ks = [] @ a # ks \<and> b \<notin> set []" by simp
      then show ?thesis by blast
    next
      case (Cons x X')
      with eq have eq': "firsts (insert k S) ks = X' @ a # Y" by auto
      from Cons.IH [OF eq' Cons.prems(2)] obtain A B where AB: "ks = A @ a # B" "b \<notin> set A" by blast
      from eq' Cons.prems(2) have "b \<in> set (firsts (insert k S) ks)" by simp
      then have "b \<notin> insert k S" by (rule firsts_not_in)
      then have "b \<noteq> k" by auto
      with AB have "k # ks = (k # A) @ a # B \<and> b \<notin> set (k # A)" by simp
      then show ?thesis by blast
    qed
  qed
qed

lemma patch_versions_keys:
  "map patch_key_of (patch_versions versions) = firsts {} (map patch_key_of versions)"
proof -
  let ?d = "collect_patch_versions [] versions"
  have k: "keyed ?d" by (rule keyed_collect) (simp add: keyed_def)
  then have eq: "map (patch_key_of \<circ> snd) ?d = map fst ?d"
    by (auto simp: keyed_def list_all_iff)
  have "map patch_key_of (patch_versions versions) = map (patch_key_of \<circ> snd) ?d"
    by (simp add: patch_versions_def)
  also have "\<dots> = map fst ?d" by (rule eq)
  also have "\<dots> = firsts {} (map patch_key_of versions)"
    using map_fst_collect [of "[]" versions] by simp
  finally show ?thesis .
qed

lemma patch_versions_order:
  assumes "patch_versions versions = xs @ g # ys" and "h' \<in> set ys"
  shows "\<exists>A e B. versions = A @ e # B \<and> patch_key_of e = patch_key_of g \<and>
           (\<forall>x\<in>set A. patch_key_of x \<noteq> patch_key_of h')"
proof -
  from assms(1) have eq: "firsts {} (map patch_key_of versions) =
      map patch_key_of xs @ patch_key_of g # map patch_key_of ys"
    using patch_versions_keys [of versions] by simp
  from assms(2) have mem: "patch_key_of h' \<in> set (map patch_key_of ys)" by simp
  from firsts_order [OF eq mem] obtain A B where AB: "map patch_key_of versions = A @ patch_key_of g # B"
    "patch_key_of h' \<notin> set A" by blast
  from AB(1) obtain A' e B' where d: "versions = A' @ e # B'" "map patch_key_of A' = A"
    "patch_key_of e = patch_key_of g"
    by (auto simp: map_eq_append_conv map_eq_Cons_conv)
  from AB(2) d(2) have "patch_key_of h' \<notin> patch_key_of ` set A'" by (metis set_map)
  then have "\<forall>x\<in>set A'. patch_key_of x \<noteq> patch_key_of h'" by (metis imageI)
  with d(1,3) show ?thesis by blast
qed

lemma patch_versions_has_ga:
  assumes "h \<in> set versions" and "\<not> is_milestone (fst h)"
  shows "\<exists>h'\<in>set (patch_versions versions). patch_key_of h' = patch_key_of h \<and> \<not> is_milestone (fst h')"
proof -
  let ?P = "\<lambda>e. patch_key_of e = patch_key_of h \<and> \<not> is_milestone (fst e)"
  from assms have "find ?P versions \<noteq> None" unfolding find_None_iff by blast
  then obtain h' where f: "find ?P versions = Some h'" by auto
  then have P: "?P h'" by (auto simp: find_Some_iff)
  from f have "map_of (collect_patch_versions [] versions) (patch_key_of h) = Some h'"
    by (simp add: map_of_collect chosen_def)
  then have "(patch_key_of h, h') \<in> set (collect_patch_versions [] versions)"
    by (rule map_of_SomeD)
  then have "h' \<in> set (patch_versions versions)" by (force simp: patch_versions_def)
  with P show ?thesis by blast
qed

lemma mainline_of_key: "patch_key_of a = patch_key_of b \<Longrightarrow> minor_line a = minor_line b"
  by (simp add: patch_key_of_def mainline_version_def)

lemma tuple_of_key: "patch_key_of a = patch_key_of b \<Longrightarrow> version_tuple (fst a) = version_tuple (fst b)"
  by (simp add: patch_key_of_def version_tuple_def patch_or_0_def)

lemma ga_not_lt:
  "\<not> is_milestone g \<Longrightarrow> version_tuple h \<le> version_tuple g \<Longrightarrow> \<not> RedisVersion_lt g h"
  by (auto simp: RedisVersion_lt_iff is_milestone_def)

lemma not_lt_tuple: "\<not> RedisVersion_lt e h \<Longrightarrow> version_tuple h \<le> version_tuple e"
  by (auto simp: RedisVersion_lt_iff)

lemma filter_actual_versions_highest_ga:
  assumes sorted: "sorted_wrt (\<lambda>a b. \<not> RedisVersion_lt (fst a) (fst b)) versions"
    and g: "g \<in> set (filter_actual_versions versions)" "\<not> is_milestone (fst g)"
    and h: "h \<in> set versions" "\<not> is_milestone (fst h)" "minor_line h = minor_line g"
  shows "\<not> RedisVersion_lt (fst g) (fst h)"
proof -
  from g(1) obtain xs ys where pv: "patch_versions versions = xs @ g # ys"
    and before: "\<forall>x\<in>set xs. minor_line x = minor_line g \<longrightarrow> is_milestone (fst x)"
    by (auto simp: filter_actual_versions_def keep_until_ga_iff)
  from patch_versions_has_ga [OF h(1,2)] obtain h' where h': "h' \<in> set (patch_versions versions)"
    "patch_key_of h' = patch_key_of h" "\<not> is_milestone (fst h')" by blast
  from h'(2) h(3) have "minor_line h' = minor_line g" using mainline_of_key [of h' h] by simp
  with before h'(3) have "h' \<notin> set xs" by blast
  with h'(1) pv have "h' = g \<or> h' \<in> set ys" by auto
  then have "version_tuple (fst h) \<le> version_tuple (fst g)"
  proof
    assume "h' = g"
    with h'(2) show ?thesis using tuple_of_key [of g h] by simp
  next
    assume "h' \<in> set ys"
    from patch_versions_order [OF pv this] obtain A e B where d: "versions = A @ e # B"
      "patch_key_of e = patch_key_of g" "\<forall>x\<in>set A. patch_key_of x \<noteq> patch_key_of h'" by blast
    have "distinct (map patch_key_of (xs @ g # ys))"
      using distinct_patch_versions [of versions] pv by simp
    then have "patch_key_of g \<notin> patch_key_of ` set ys" by simp
    with \<open>h' \<in> set ys\<close> have "patch_key_of h' \<noteq> patch_key_of g" by (metis imageI)
    with d h'(2) h(1) have "h \<in> set B" by auto
    with sorted d(1) have "\<not> RedisVersion_lt (fst e) (fst h)"
      by (simp add: sorted_wrt_append)
    then have "version_tuple (fst h) \<le> version_tuple (fst e)" by (rule not_lt_tuple)
    with d(2) show ?thesis using tuple_of_key [of e g] by simp
  qed
  with g(2) show ?thesis by (simp add: ga_not_lt)
qed

lemma ga_lines_snoc:
  "ga_lines (P @ [a]) = (if \<not> is_milestone (fst a) then insert (minor_line a) (ga_lines P) else ga_lines P)"
  by (auto simp: ga_lines_def)

lemma blocked_head:
  assumes "patch_key_of a \<notin> patch_key_of ` set P"
  shows "blocked (P @ a # es) a \<longleftrightarrow> minor_line a \<in> ga_lines P"
proof -
  from assms have tw: "takeWhile (\<lambda>y. patch_key_of y \<noteq> patch_key_of a) (P @ a # es) = P"
    by (subst takeWhile_append2) (auto simp: image_iff)
  have b: "blocked (P @ a # es) a \<longleftrightarrow>
      (\<exists>g\<in>set P. \<not> is_milestone (fst g) \<and> minor_line g = minor_line a)"
    by (simp only: blocked_def tw list_ex_iff)
  have l: "minor_line a \<in> ga_lines P \<longleftrightarrow>
      (\<exists>g\<in>{g \<in> set P. \<not> is_milestone (fst g)}. minor_line a = minor_line g)"
    by (simp only: ga_lines_def image_iff)
  show ?thesis unfolding b l by (simp add: Bex_def conj_ac eq_commute)
qed

lemma keep_until_ga_blocked:
  "distinct (map patch_key_of (P @ es)) \<Longrightarrow>
   keep_until_ga (ga_lines P) es = filter (\<lambda>e. \<not> blocked (P @ es) e) es"
proof (induction es arbitrary: P)
  case Nil
  then show ?case by simp
next
  case (Cons a es)
  from Cons.prems have d: "distinct (map patch_key_of ((P @ [a]) @ es))" by simp
  from Cons.prems have nk: "patch_key_of a \<notin> patch_key_of ` set P" by auto
  have IH: "keep_until_ga (ga_lines (P @ [a])) es = filter (\<lambda>e. \<not> blocked (P @ a # es) e) es"
    using Cons.IH [OF d] by simp
  have same: "minor_line a \<in> ga_lines P \<Longrightarrow> ga_lines (P @ [a]) = ga_lines P"
    by (auto simp: ga_lines_snoc)
  show ?case
  proof (cases "minor_line a \<in> ga_lines P")
    case True
    then show ?thesis using IH same blocked_head [OF nk, of es] by simp
  next
    case False
    then show ?thesis using IH blocked_head [OF nk, of es] by (simp add: ga_lines_snoc)
  qed
qed

lemma keep_until_ga_filter:
  "distinct (map patch_key_of es) \<Longrightarrow> keep_until_ga {} es = filter (\<lambda>e. \<not> blocked es e) es"
  using keep_until_ga_blocked [of "[]" es] by (simp add: ga_lines_def)

lemma set_firsts: "set (firsts S ks) = set ks - S"
  by (induction ks arbitrary: S) auto

lemma takeWhile_firsts:
  "k \<notin> S \<Longrightarrow> set (takeWhile (\<lambda>x. x \<noteq> k) (firsts S ks)) = set (takeWhile (\<lambda>x. x \<noteq> k) ks) - S"
proof (induction ks arbitrary: S)
  case Nil
  then show ?case by simp
next
  case (Cons a ks)
  show ?case
  proof (cases "a = k")
    case True
    with Cons.prems show ?thesis by simp
  next
    case False
    show ?thesis
    proof (cases "a \<in> S")
      case True
      with False Cons show ?thesis by auto
    next
      case nin: False
      from Cons.prems False have "k \<notin> insert a S" by simp
      from Cons.IH [OF this] nin False show ?thesis by auto
    qed
  qed
qed

lemma map_filter_chosen:
  "(\<And>e. e \<in> set xs \<Longrightarrow> f (k e) = Some e) \<Longrightarrow> List.map_filter f (map k xs) = xs"
  by (induction xs) (simp_all add: List.map_filter_simps)

lemma patch_versions_reference:
  "patch_versions versions = List.map_filter (chosen versions) (firsts {} (map patch_key_of versions))"
proof -
  have "List.map_filter (chosen versions) (map patch_key_of (patch_versions versions)) =
      patch_versions versions"
    by (rule map_filter_chosen) (rule patch_versions_chosen)
  then show ?thesis by (simp add: patch_versions_keys)
qed

lemma chosen_in_versions: "chosen versions k = Some e \<Longrightarrow> e \<in> set versions"
  by (auto simp: chosen_def find_Some_iff split: option.splits)

lemma has_ga_iff:
  "has_ga versions k \<longleftrightarrow>
     (\<exists>x. x \<in> set versions \<and> (patch_key_of x = k \<and> \<not> is_milestone (fst x)))"
  by (simp only: has_ga_def list_ex_iff Bex_def)

lemma chosen_ga:
  assumes "chosen versions k = Some g"
  shows "\<not> is_milestone (fst g) \<longleftrightarrow> has_ga versions k"
proof (cases "find (\<lambda>e. patch_key_of e = k \<and> \<not> is_milestone (fst e)) versions")
  case None
  then have no: "\<not> has_ga versions k"
    by (simp only: has_ga_iff find_None_iff not_False_eq_True simp_thms)
  from None assms have "find (\<lambda>e. patch_key_of e = k) versions = Some g"
    by (simp add: chosen_def)
  then have g: "g \<in> set versions" "patch_key_of g = k"
    unfolding find_Some_iff by (metis nth_mem)+
  have "is_milestone (fst g)"
  proof (rule ccontr)
    assume "\<not> is_milestone (fst g)"
    with g have "g \<in> set versions \<and> (patch_key_of g = k \<and> \<not> is_milestone (fst g))" by simp
    then have "has_ga versions k" unfolding has_ga_iff by (rule exI)
    with no show False by simp
  qed
  with no show ?thesis by simp
next
  case (Some h)
  with assms have "h = g" by (simp add: chosen_def)
  with Some have "find (\<lambda>e. patch_key_of e = k \<and> \<not> is_milestone (fst e)) versions = Some g"
    by simp
  then have g: "g \<in> set versions" "patch_key_of g = k \<and> \<not> is_milestone (fst g)"
    unfolding find_Some_iff by (metis nth_mem)+
  then have "g \<in> set versions \<and> (patch_key_of g = k \<and> \<not> is_milestone (fst g))" by simp
  then have "has_ga versions k" unfolding has_ga_iff by (rule exI)
  with g show ?thesis by simp
qed

lemma keys_before:
  "patch_key_of ` set (takeWhile (\<lambda>y. patch_key_of y \<noteq> patch_key_of e) (patch_versions versions)) =
   patch_key_of ` set (takeWhile (\<lambda>y. patch_key_of y \<noteq> patch_key_of e) versions)"
proof -
  have tm: "map patch_key_of (takeWhile (\<lambda>y. patch_key_of y \<noteq> k) xs) =
      takeWhile (\<lambda>x. x \<noteq> k) (map patch_key_of xs)" for k and xs :: "version_entry list"
    by (simp add: takeWhile_map comp_def)
  have "set (map patch_key_of (takeWhile (\<lambda>y. patch_key_of y \<noteq> patch_key_of e) (patch_versions versions))) =
      set (takeWhile (\<lambda>x. x \<noteq> patch_key_of e) (firsts {} (map patch_key_of versions)))"
    by (simp only: tm patch_versions_keys)
  also have "\<dots> = set (takeWhile (\<lambda>x. x \<noteq> patch_key_of e) (map patch_key_of versions))"
    by (simp add: takeWhile_firsts)
  also have "\<dots> = set (map patch_key_of (takeWhile (\<lambda>y. patch_key_of y \<noteq> patch_key_of e) versions))"
    by (simp only: tm)
  finally show ?thesis by simp
qed

lemma blocked_iff:
  "blocked L e \<longleftrightarrow>
     (\<exists>g. g \<in> set (takeWhile (\<lambda>y. patch_key_of y \<noteq> patch_key_of e) L) \<and>
          (\<not> is_milestone (fst g) \<and> minor_line g = minor_line e))"
  by (simp only: blocked_def list_ex_iff Bex_def)

lemma resolved_before_iff:
  "resolved_before versions e \<longleftrightarrow>
     (\<exists>x. x \<in> set (takeWhile (\<lambda>y. patch_key_of y \<noteq> patch_key_of e) versions) \<and>
          (minor_line x = minor_line e \<and> has_ga versions (patch_key_of x)))"
  by (simp only: resolved_before_def list_ex_iff Bex_def)

lemma blocked_resolved:
  "blocked (patch_versions versions) e \<longleftrightarrow> resolved_before versions e"
proof
  let ?Tp = "takeWhile (\<lambda>y. patch_key_of y \<noteq> patch_key_of e) (patch_versions versions)"
  let ?Tv = "takeWhile (\<lambda>y. patch_key_of y \<noteq> patch_key_of e) versions"
  assume "blocked (patch_versions versions) e"
  then have "\<exists>g. g \<in> set ?Tp \<and> (\<not> is_milestone (fst g) \<and> minor_line g = minor_line e)"
    by (simp only: blocked_iff)
  then obtain g where g0: "g \<in> set ?Tp \<and> (\<not> is_milestone (fst g) \<and> minor_line g = minor_line e)" ..
  then have g1: "g \<in> set ?Tp" by (rule conjunct1)
  from g0 have g2: "\<not> is_milestone (fst g)" by (rule conjunct2 [THEN conjunct1])
  from g0 have g3: "minor_line g = minor_line e" by (rule conjunct2 [THEN conjunct2])
  from g1 have gp: "g \<in> set (patch_versions versions)" by (rule set_takeWhileD [THEN conjunct1])
  then have c: "chosen versions (patch_key_of g) = Some g" by (rule patch_versions_chosen)
  from g1 have "patch_key_of g \<in> patch_key_of ` set ?Tp" by (rule imageI)
  then have "patch_key_of g \<in> patch_key_of ` set ?Tv" by (simp only: keys_before)
  then obtain x where x2: "patch_key_of g = patch_key_of x" and x1: "x \<in> set ?Tv" by (rule imageE)
  from x2 have "minor_line x = minor_line g" by (rule mainline_of_key [OF sym])
  then have m: "minor_line x = minor_line e" using g3 by (rule trans)
  from g2 have "has_ga versions (patch_key_of g)" by (rule chosen_ga [OF c, THEN iffD1])
  then have h: "has_ga versions (patch_key_of x)" by (simp only: x2)
  from x1 m h have "x \<in> set ?Tv \<and> (minor_line x = minor_line e \<and> has_ga versions (patch_key_of x))"
    by (intro conjI)
  then have "\<exists>x. x \<in> set ?Tv \<and> (minor_line x = minor_line e \<and> has_ga versions (patch_key_of x))"
    by (rule exI)
  then show "resolved_before versions e" by (simp only: resolved_before_iff)
next
  let ?Tp = "takeWhile (\<lambda>y. patch_key_of y \<noteq> patch_key_of e) (patch_versions versions)"
  let ?Tv = "takeWhile (\<lambda>y. patch_key_of y \<noteq> patch_key_of e) versions"
  assume "resolved_before versions e"
  then have "\<exists>x. x \<in> set ?Tv \<and> (minor_line x = minor_line e \<and> has_ga versions (patch_key_of x))"
    by (simp only: resolved_before_iff)
  then obtain x where x0: "x \<in> set ?Tv \<and> (minor_line x = minor_line e \<and> has_ga versions (patch_key_of x))" ..
  then have x1: "x \<in> set ?Tv" by (rule conjunct1)
  from x0 have x2: "minor_line x = minor_line e" by (rule conjunct2 [THEN conjunct1])
  from x0 have x3: "has_ga versions (patch_key_of x)" by (rule conjunct2 [THEN conjunct2])
  from x1 have "patch_key_of x \<in> patch_key_of ` set ?Tv" by (rule imageI)
  then have "patch_key_of x \<in> patch_key_of ` set ?Tp" by (simp only: keys_before)
  then obtain g where g2: "patch_key_of x = patch_key_of g" and g1: "g \<in> set ?Tp" by (rule imageE)
  from g1 have "g \<in> set (patch_versions versions)" by (rule set_takeWhileD [THEN conjunct1])
  then have c: "chosen versions (patch_key_of g) = Some g" by (rule patch_versions_chosen)
  from x3 have "has_ga versions (patch_key_of g)" by (simp only: g2)
  then have n: "\<not> is_milestone (fst g)" by (rule chosen_ga [OF c, THEN iffD2])
  from g2 have "minor_line g = minor_line x" by (rule mainline_of_key [OF sym])
  then have m: "minor_line g = minor_line e" using x2 by (rule trans)
  from g1 n m have "g \<in> set ?Tp \<and> (\<not> is_milestone (fst g) \<and> minor_line g = minor_line e)"
    by (intro conjI)
  then have "\<exists>g. g \<in> set ?Tp \<and> (\<not> is_milestone (fst g) \<and> minor_line g = minor_line e)"
    by (rule exI)
  then show "blocked (patch_versions versions) e" by (simp only: blocked_iff)
qed

lemma filter_actual_versions_reference:
  "filter_actual_versions versions = reference_actual_versions versions"
proof -
  have "filter_actual_versions versions =
      filter (\<lambda>e. \<not> blocked (patch_versions versions) e) (patch_versions versions)"
    unfolding filter_actual_versions_def
    by (rule keep_until_ga_filter) (rule distinct_patch_versions)
  then show ?thesis
    by (simp add: blocked_resolved reference_actual_versions_def patch_versions_reference [symmetric])
qed

lemma in_patch_versions_iff:
  "e \<in> set (patch_versions versions) \<longleftrightarrow> chosen versions (patch_key_of e) = Some e"
proof
  assume "e \<in> set (patch_versions versions)"
  then show "chosen versions (patch_key_of e) = Some e" by (rule patch_versions_chosen)
next
  assume "chosen versions (patch_key_of e) = Some e"
  then have "map_of (collect_patch_versions [] versions) (patch_key_of e) = Some e"
    by (simp add: map_of_collect)
  then have "(patch_key_of e, e) \<in> set (collect_patch_versions [] versions)"
    by (rule map_of_SomeD)
  then show "e \<in> set (patch_versions versions)" by (force simp: patch_versions_def)
qed

lemma filter_actual_versions_member:
  "e \<in> set (filter_actual_versions versions) \<longleftrightarrow>
     chosen versions (patch_key_of e) = Some e \<and> \<not> resolved_before versions e"
  by (simp add: filter_actual_versions_reference reference_actual_versions_def
      patch_versions_reference [symmetric] in_patch_versions_iff)

lemma filter_actual_versions_example_patches:
  "filter_actual_versions
     [(\<lparr>major = 8, minor = 2, patch = Some 2, suffix = ''''\<rparr>, ''c0'', ''refs/tags/v8.2.2''),
      (\<lparr>major = 8, minor = 2, patch = Some 1, suffix = ''''\<rparr>, ''c1'', ''refs/tags/v8.2.1''),
      (\<lparr>major = 8, minor = 2, patch = Some 0, suffix = ''''\<rparr>, ''c2'', ''refs/tags/v8.2.0''),
      (\<lparr>major = 8, minor = 1, patch = Some 1, suffix = ''''\<rparr>, ''c3'', ''refs/tags/v8.1.1''),
      (\<lparr>major = 8, minor = 1, patch = Some 0, suffix = ''''\<rparr>, ''c4'', ''refs/tags/v8.1.0'')] =
     [(\<lparr>major = 8, minor = 2, patch = Some 2, suffix = ''''\<rparr>, ''c0'', ''refs/tags/v8.2.2''),
      (\<lparr>major = 8, minor = 1, patch = Some 1, suffix = ''''\<rparr>, ''c3'', ''refs/tags/v8.1.1'')]"
  by code_simp

lemma filter_actual_versions_example_ga:
  "filter_actual_versions
     [(\<lparr>major = 8, minor = 2, patch = Some 1, suffix = ''-m02''\<rparr>, ''c0'', ''refs/tags/v8.2.1-m02''),
      (\<lparr>major = 8, minor = 2, patch = Some 1, suffix = ''-rc01''\<rparr>, ''c1'', ''refs/tags/v8.2.1-rc01''),
      (\<lparr>major = 8, minor = 2, patch = Some 1, suffix = ''''\<rparr>, ''c2'', ''refs/tags/v8.2.1'')] =
     [(\<lparr>major = 8, minor = 2, patch = Some 1, suffix = ''''\<rparr>, ''c2'', ''refs/tags/v8.2.1'')]"
  by code_simp

lemma filter_actual_versions_example_milestones:
  "filter_actual_versions
     [(\<lparr>major = 8, minor = 2, patch = Some 2, suffix = ''-m02''\<rparr>, ''c0'', ''refs/tags/v8.2.2-m02''),
      (\<lparr>major = 8, minor = 2, patch = Some 2, suffix = ''-m01''\<rparr>, ''c1'', ''refs/tags/v8.2.2-m01''),
      (\<lparr>major = 8, minor = 2, patch = Some 1, suffix = ''''\<rparr>, ''c2'', ''refs/tags/v8.2.1''),
      (\<lparr>major = 8, minor = 2, patch = Some 0, suffix = ''-m03''\<rparr>, ''c3'', ''refs/tags/v8.2.0-m03''),
      (\<lparr>major = 8, minor = 1, patch = Some 1, suffix = ''-m01''\<rparr>, ''c4'', ''refs/tags/v8.1.1-m01''),
      (\<lparr>major = 8, minor = 1, patch = Some 0, suffix = ''''\<rparr>, ''c5'', ''refs/tags/v8.1.0'')] =
     [(\<lparr>major = 8, minor = 2, patch = Some 2, suffix = ''-m02''\<rparr>, ''c0'', ''refs/tags/v8.2.2-m02''),
      (\<lparr>major = 8, minor = 2, patch = Some 1, suffix = ''''\<rparr>, ''c2'', ''refs/tags/v8.2.1''),
      (\<lparr>major = 8, minor = 1, patch = Some 1, suffix = ''-m01''\<rparr>, ''c4'', ''refs/tags/v8.1.1-m01''),
      (\<lparr>major = 8, minor = 1, patch = Some 0, suffix = ''''\<rparr>, ''c5'', ''refs/tags/v8.1.0'')]"
  by code_simp

lemma filter_actual_versions_example_newer_line:
  "filter_actual_versions
     [(\<lparr>major = 8, minor = 4, patch = Some 0, suffix = ''-m01''\<rparr>, ''c0'', ''refs/tags/v8.4.0-m01''),
      (\<lparr>major = 8, minor = 2, patch = Some 1, suffix = ''''\<rparr>, ''c1'', ''refs/tags/v8.2.1'')] =
     [(\<lparr>major = 8, minor = 4, patch = Some 0, suffix = ''-m01''\<rparr>, ''c0'', ''refs/tags/v8.4.0-m01''),
      (\<lparr>major = 8, minor = 2, patch = Some 1, suffix = ''''\<rparr>, ''c1'', ''refs/tags/v8.2.1'')]"
  by code_simp

text \<open>
  C3. For every list of versions, the result of \<^verbatim>\<open>filter_actual_versions\<close>
  \<^item> has at most one entry per (major, minor, patch) key;
  \<^item> holds, for the key of each of its entries, the first GA entry of that key in the input
    when there is one (it replaced an earlier pre-release), and the first entry of that key
    otherwise;
  \<^item> has no entry of a minor line after a GA entry of that line;
  \<^item> is computed from the entries kept per key, which are, for the keys of the input in the
    order of their first occurrence, the entries chosen as above;
  \<^item> consists of exactly the entries kept per key before which no GA entry of their minor
    line stands;
  \<^item> is, over the input alone, the list of the chosen entries of all keys of the input, in
    the order of the first occurrence of the keys, without those whose minor line is
    resolved before them: an entry is in the result exactly when it is the entry chosen for
    its key and no entry of its minor line whose key has a GA entry in the input stands
    before the first entry of its key. So every pre-release and every GA entry chosen for
    its key is retained until its line has produced a GA entry of another key;
  \<^item> when the input is sorted descending by the comparison of versions, holds for each
    minor line a GA entry that no GA entry of that line in the input exceeds.

  The two examples of the specification evaluate as stated. In a third list the
  pre-releases 8.2.2-m02 and 8.1.1-m01 are retained and 8.2.2-m01 and 8.2.0-m03 are
  dropped, and in a fourth the pre-release 8.4.0-m01 of a line without a GA entry is
  retained beside 8.2.1.
\<close>

theorem filter_actual_versions_latest_per_line:
  "distinct (map patch_key_of (filter_actual_versions versions)) \<and>
   (\<forall>e\<in>set (filter_actual_versions versions). chosen versions (patch_key_of e) = Some e) \<and>
   (\<forall>xs g ys. filter_actual_versions versions = xs @ g # ys \<and> \<not> is_milestone (fst g) \<longrightarrow>
      (\<forall>e\<in>set ys. minor_line e \<noteq> minor_line g)) \<and>
   patch_versions versions =
     List.map_filter (chosen versions) (firsts {} (map patch_key_of versions)) \<and>
   (\<forall>e. e \<in> set (filter_actual_versions versions) \<longleftrightarrow>
      (\<exists>xs ys. patch_versions versions = xs @ e # ys \<and>
         (\<forall>g\<in>set xs. minor_line g = minor_line e \<longrightarrow> is_milestone (fst g)))) \<and>
   filter_actual_versions versions = reference_actual_versions versions \<and>
   (\<forall>e. e \<in> set (filter_actual_versions versions) \<longleftrightarrow>
      chosen versions (patch_key_of e) = Some e \<and> \<not> resolved_before versions e) \<and>
   (sorted_wrt (\<lambda>a b. \<not> RedisVersion_lt (fst a) (fst b)) versions \<longrightarrow>
      (\<forall>g\<in>set (filter_actual_versions versions). \<forall>h\<in>set versions.
         \<not> is_milestone (fst g) \<and> \<not> is_milestone (fst h) \<and> minor_line h = minor_line g \<longrightarrow>
         \<not> RedisVersion_lt (fst g) (fst h))) \<and>
   filter_actual_versions
     [(\<lparr>major = 8, minor = 2, patch = Some 2, suffix = ''''\<rparr>, ''c0'', ''refs/tags/v8.2.2''),
      (\<lparr>major = 8, minor = 2, patch = Some 1, suffix = ''''\<rparr>, ''c1'', ''refs/tags/v8.2.1''),
      (\<lparr>major = 8, minor = 2, patch = Some 0, suffix = ''''\<rparr>, ''c2'', ''refs/tags/v8.2.0''),
      (\<lparr>major = 8, minor = 1, patch = Some 1, suffix = ''''\<rparr>, ''c3'', ''refs/tags/v8.1.1''),
      (\<lparr>major = 8, minor = 1, patch = Some 0, suffix = ''''\<rparr>, ''c4'', ''refs/tags/v8.1.0'')] =
     [(\<lparr>major = 8, minor = 2, patch = Some 2, suffix = ''''\<rparr>, ''c0'', ''refs/tags/v8.2.2''),
      (\<lparr>major = 8, minor = 1, patch = Some 1, suffix = ''''\<rparr>, ''c3'', ''refs/tags/v8.1.1'')] \<and>
   filter_actual_versions
     [(\<lparr>major = 8, minor = 2, patch = Some 1, suffix = ''-m02''\<rparr>, ''c0'', ''refs/tags/v8.2.1-m02''),
      (\<lparr>major = 8, minor = 2, patch = Some 1, suffix = ''-rc01''\<rparr>, ''c1'', ''refs/tags/v8.2.1-rc01''),
      (\<lparr>major = 8, minor = 2, patch = Some 1, suffix = ''''\<rparr>, ''c2'', ''refs/tags/v8.2.1'')] =
     [(\<lparr>major = 8, minor = 2, patch = Some 1, suffix = ''''\<rparr>, ''c2'', ''refs/tags/v8.2.1'')] \<and>
   filter_actual_versions
     [(\<lparr>major = 8, minor = 2, patch = Some 2, suffix = ''-m02''\<rparr>, ''c0'', ''refs/tags/v8.2.2-m02''),
      (\<lparr>major = 8, minor = 2, patch = Some 2, suffix = ''-m01''\<rparr>, ''c1'', ''refs/tags/v8.2.2-m01''),
      (\<lparr>major = 8, minor = 2, patch = Some 1, suffix = ''''\<rparr>, ''c2'', ''refs/tags/v8.2.1''),
      (\<lparr>major = 8, minor = 2, patch = Some 0, suffix = ''-m03''\<rparr>, ''c3'', ''refs/tags/v8.2.0-m03''),
      (\<lparr>major = 8, minor = 1, patch = Some 1, suffix = ''-m01''\<rparr>, ''c4'', ''refs/tags/v8.1.1-m01''),
      (\<lparr>major = 8, minor = 1, patch = Some 0, suffix = ''''\<rparr>, ''c5'', ''refs/tags/v8.1.0'')] =
     [(\<lparr>major = 8, minor = 2, patch = Some 2, suffix = ''-m02''\<rparr>, ''c0'', ''refs/tags/v8.2.2-m02''),
      (\<lparr>major = 8, minor = 2, patch = Some 1, suffix = ''''\<rparr>, ''c2'', ''refs/tags/v8.2.1''),
      (\<lparr>major = 8, minor = 1, patch = Some 1, suffix = ''-m01''\<rparr>, ''c4'', ''refs/tags/v8.1.1-m01''),
      (\<lparr>major = 8, minor = 1, patch = Some 0, suffix = ''''\<rparr>, ''c5'', ''refs/tags/v8.1.0'')] \<and>
   filter_actual_versions
     [(\<lparr>major = 8, minor = 4, patch = Some 0, suffix = ''-m01''\<rparr>, ''c0'', ''refs/tags/v8.4.0-m01''),
      (\<lparr>major = 8, minor = 2, patch = Some 1, suffix = ''''\<rparr>, ''c1'', ''refs/tags/v8.2.1'')] =
     [(\<lparr>major = 8, minor = 4, patch = Some 0, suffix = ''-m01''\<rparr>, ''c0'', ''refs/tags/v8.4.0-m01''),
      (\<lparr>major = 8, minor = 2, patch = Some 1, suffix = ''''\<rparr>, ''c1'', ''refs/tags/v8.2.1'')]"
proof -
  let ?out = "filter_actual_versions versions"
  have sub: "subseq ?out (patch_versions versions)"
    by (simp add: filter_actual_versions_def subseq_keep_until_ga)
  then have "subseq (map patch_key_of ?out) (map patch_key_of (patch_versions versions))"
    by (rule subseq_map)
  then have a: "distinct (map patch_key_of ?out)"
    using distinct_patch_versions [of versions] by (rule distinct_subseq)
  have m: "\<forall>e. e \<in> set ?out \<longleftrightarrow>
      chosen versions (patch_key_of e) = Some e \<and> \<not> resolved_before versions e"
    by (intro allI) (rule filter_actual_versions_member)
  have b: "\<forall>e\<in>set ?out. chosen versions (patch_key_of e) = Some e"
  proof
    fix e
    assume "e \<in> set ?out"
    then have "chosen versions (patch_key_of e) = Some e \<and> \<not> resolved_before versions e"
      by (rule filter_actual_versions_member [THEN iffD1])
    then show "chosen versions (patch_key_of e) = Some e" by (rule conjunct1)
  qed
  have c: "\<forall>xs g ys. ?out = xs @ g # ys \<and> \<not> is_milestone (fst g) \<longrightarrow>
      (\<forall>e\<in>set ys. minor_line e \<noteq> minor_line g)"
  proof (intro allI impI ballI)
    fix xs g ys e
    assume "?out = xs @ g # ys \<and> \<not> is_milestone (fst g)" and e: "e \<in> set ys"
    then have "keep_until_ga {} (patch_versions versions) = xs @ g # ys" "\<not> is_milestone (fst g)"
      by (simp_all add: filter_actual_versions_def)
    from keep_until_ga_after_ga [OF this e] show "minor_line e \<noteq> minor_line g" .
  qed
  have p: "patch_versions versions =
      List.map_filter (chosen versions) (firsts {} (map patch_key_of versions))"
    by (rule patch_versions_reference)
  have d: "\<forall>e. e \<in> set ?out \<longleftrightarrow>
      (\<exists>xs ys. patch_versions versions = xs @ e # ys \<and>
         (\<forall>g\<in>set xs. minor_line g = minor_line e \<longrightarrow> is_milestone (fst g)))"
    unfolding filter_actual_versions_def
    by (intro allI) (simp only: keep_until_ga_iff [of _ "{}"] empty_iff not_False_eq_True simp_thms)
  have r: "?out = reference_actual_versions versions"
    by (rule filter_actual_versions_reference)
  have e: "sorted_wrt (\<lambda>a b. \<not> RedisVersion_lt (fst a) (fst b)) versions \<longrightarrow>
      (\<forall>g\<in>set ?out. \<forall>h\<in>set versions.
         \<not> is_milestone (fst g) \<and> \<not> is_milestone (fst h) \<and> minor_line h = minor_line g \<longrightarrow>
         \<not> RedisVersion_lt (fst g) (fst h))"
  proof (intro impI ballI)
    fix g h
    assume "sorted_wrt (\<lambda>a b. \<not> RedisVersion_lt (fst a) (fst b)) versions"
      and "g \<in> set ?out" and "h \<in> set versions"
      and "\<not> is_milestone (fst g) \<and> \<not> is_milestone (fst h) \<and> minor_line h = minor_line g"
    then show "\<not> RedisVersion_lt (fst g) (fst h)"
      using filter_actual_versions_highest_ga [of versions g h] by simp
  qed
  note ex = filter_actual_versions_example_patches filter_actual_versions_example_ga
    filter_actual_versions_example_milestones filter_actual_versions_example_newer_line
  show ?thesis
    by (intro conjI) (rule a b c p d r m e ex)+
qed

text \<open>
  The theorem on two lists. The list 8.2.2, 8.2.1, 8.2.0, 8.1.1, 8.1.0 is sorted
  descending, 8.2.2 is kept and is GA, so it is not below 8.2.1, the other GA entry of its
  line taken here. In the list 8.2.2-m02, 8.2.2-m01, 8.2.1, 8.2.0-m03, 8.1.1-m01, 8.1.0 the
  pre-release 8.2.2-m02 is the entry chosen for its key and its line is not resolved before
  it, so it is in the result.
\<close>

theorem filter_actual_versions_latest_per_line_witness:
  "sorted_wrt (\<lambda>a b. \<not> RedisVersion_lt (fst a) (fst b))
     [(\<lparr>major = 8, minor = 2, patch = Some 2, suffix = ''''\<rparr>, ''c0'', ''refs/tags/v8.2.2''),
      (\<lparr>major = 8, minor = 2, patch = Some 1, suffix = ''''\<rparr>, ''c1'', ''refs/tags/v8.2.1''),
      (\<lparr>major = 8, minor = 2, patch = Some 0, suffix = ''''\<rparr>, ''c2'', ''refs/tags/v8.2.0''),
      (\<lparr>major = 8, minor = 1, patch = Some 1, suffix = ''''\<rparr>, ''c3'', ''refs/tags/v8.1.1''),
      (\<lparr>major = 8, minor = 1, patch = Some 0, suffix = ''''\<rparr>, ''c4'', ''refs/tags/v8.1.0'')] \<and>
   \<not> RedisVersion_lt \<lparr>major = 8, minor = 2, patch = Some 2, suffix = ''''\<rparr>
                     \<lparr>major = 8, minor = 2, patch = Some 1, suffix = ''''\<rparr> \<and>
   chosen
     [(\<lparr>major = 8, minor = 2, patch = Some 2, suffix = ''-m02''\<rparr>, ''c0'', ''refs/tags/v8.2.2-m02''),
      (\<lparr>major = 8, minor = 2, patch = Some 2, suffix = ''-m01''\<rparr>, ''c1'', ''refs/tags/v8.2.2-m01''),
      (\<lparr>major = 8, minor = 2, patch = Some 1, suffix = ''''\<rparr>, ''c2'', ''refs/tags/v8.2.1''),
      (\<lparr>major = 8, minor = 2, patch = Some 0, suffix = ''-m03''\<rparr>, ''c3'', ''refs/tags/v8.2.0-m03''),
      (\<lparr>major = 8, minor = 1, patch = Some 1, suffix = ''-m01''\<rparr>, ''c4'', ''refs/tags/v8.1.1-m01''),
      (\<lparr>major = 8, minor = 1, patch = Some 0, suffix = ''''\<rparr>, ''c5'', ''refs/tags/v8.1.0'')]
     (8, 2, Some 2) =
     Some (\<lparr>major = 8, minor = 2, patch = Some 2, suffix = ''-m02''\<rparr>, ''c0'', ''refs/tags/v8.2.2-m02'') \<and>
   (\<lparr>major = 8, minor = 2, patch = Some 2, suffix = ''-m02''\<rparr>, ''c0'', ''refs/tags/v8.2.2-m02'') \<in> set
     (filter_actual_versions
        [(\<lparr>major = 8, minor = 2, patch = Some 2, suffix = ''-m02''\<rparr>, ''c0'', ''refs/tags/v8.2.2-m02''),
         (\<lparr>major = 8, minor = 2, patch = Some 2, suffix = ''-m01''\<rparr>, ''c1'', ''refs/tags/v8.2.2-m01''),
         (\<lparr>major = 8, minor = 2, patch = Some 1, suffix = ''''\<rparr>, ''c2'', ''refs/tags/v8.2.1''),
         (\<lparr>major = 8, minor = 2, patch = Some 0, suffix = ''-m03''\<rparr>, ''c3'', ''refs/tags/v8.2.0-m03''),
         (\<lparr>major = 8, minor = 1, patch = Some 1, suffix = ''-m01''\<rparr>, ''c4'', ''refs/tags/v8.1.1-m01''),
         (\<lparr>major = 8, minor = 1, patch = Some 0, suffix = ''''\<rparr>, ''c5'', ''refs/tags/v8.1.0'')])"
proof -
  let ?g = "(\<lparr>major = 8, minor = 2, patch = Some 2, suffix = ''''\<rparr>, ''c0'', ''refs/tags/v8.2.2'')"
  let ?h = "(\<lparr>major = 8, minor = 2, patch = Some 1, suffix = ''''\<rparr>, ''c1'', ''refs/tags/v8.2.1'')"
  let ?L = "[?g, ?h,
      (\<lparr>major = 8, minor = 2, patch = Some 0, suffix = ''''\<rparr>, ''c2'', ''refs/tags/v8.2.0''),
      (\<lparr>major = 8, minor = 1, patch = Some 1, suffix = ''''\<rparr>, ''c3'', ''refs/tags/v8.1.1''),
      (\<lparr>major = 8, minor = 1, patch = Some 0, suffix = ''''\<rparr>, ''c4'', ''refs/tags/v8.1.0'')]"
  let ?e = "(\<lparr>major = 8, minor = 2, patch = Some 2, suffix = ''-m02''\<rparr>, ''c0'', ''refs/tags/v8.2.2-m02'')"
  let ?M = "[?e,
      (\<lparr>major = 8, minor = 2, patch = Some 2, suffix = ''-m01''\<rparr>, ''c1'', ''refs/tags/v8.2.2-m01''),
      (\<lparr>major = 8, minor = 2, patch = Some 1, suffix = ''''\<rparr>, ''c2'', ''refs/tags/v8.2.1''),
      (\<lparr>major = 8, minor = 2, patch = Some 0, suffix = ''-m03''\<rparr>, ''c3'', ''refs/tags/v8.2.0-m03''),
      (\<lparr>major = 8, minor = 1, patch = Some 1, suffix = ''-m01''\<rparr>, ''c4'', ''refs/tags/v8.1.1-m01''),
      (\<lparr>major = 8, minor = 1, patch = Some 0, suffix = ''''\<rparr>, ''c5'', ''refs/tags/v8.1.0'')]"
  have s: "sorted_wrt (\<lambda>a b. \<not> RedisVersion_lt (fst a) (fst b)) ?L"
    by (simp add: RedisVersion_lt_def version_tuple_def patch_or_0_def)
  have out: "filter_actual_versions ?L =
     [?g, (\<lparr>major = 8, minor = 1, patch = Some 1, suffix = ''''\<rparr>, ''c3'', ''refs/tags/v8.1.1'')]"
    by (rule filter_actual_versions_example_patches)
  have g: "?g \<in> set (filter_actual_versions ?L)"
    unfolding out by simp
  have h: "?h \<in> set ?L" by simp
  have ga: "\<not> is_milestone (fst ?g) \<and> \<not> is_milestone (fst ?h) \<and> minor_line ?h = minor_line ?g"
    by (simp add: is_milestone_def mainline_version_def)
  note TL = filter_actual_versions_latest_per_line [of ?L]
  note sortedL = TL [THEN conjunct2, THEN conjunct2, THEN conjunct2, THEN conjunct2, THEN conjunct2,
      THEN conjunct2, THEN conjunct2, THEN conjunct1, THEN mp, OF s]
  from sortedL g have "\<forall>h\<in>set ?L.
         \<not> is_milestone (fst ?g) \<and> \<not> is_milestone (fst h) \<and> minor_line h = minor_line ?g \<longrightarrow>
         \<not> RedisVersion_lt (fst ?g) (fst h)"
    by (rule bspec)
  from this h have "\<not> is_milestone (fst ?g) \<and> \<not> is_milestone (fst ?h) \<and> minor_line ?h = minor_line ?g \<longrightarrow>
         \<not> RedisVersion_lt (fst ?g) (fst ?h)"
    by (rule bspec)
  from this ga have 1: "\<not> RedisVersion_lt (fst ?g) (fst ?h)"
    by (rule mp)
  have k: "patch_key_of ?e = (8, 2, Some 2)"
    by (simp add: patch_key_of_def)
  have ch: "chosen ?M (8, 2, Some 2) = Some ?e"
    by code_simp
  have nr: "\<not> resolved_before ?M ?e"
    by code_simp
  note TM = filter_actual_versions_latest_per_line [of ?M]
  note memberM = TM [THEN conjunct2, THEN conjunct2, THEN conjunct2, THEN conjunct2, THEN conjunct2,
      THEN conjunct2, THEN conjunct1, THEN spec, of ?e]
  from ch nr have "chosen ?M (patch_key_of ?e) = Some ?e \<and> \<not> resolved_before ?M ?e"
    unfolding k by (rule conjI)
  with memberM have 2: "?e \<in> set (filter_actual_versions ?M)"
    by (rule iffD2)
  from s 1 ch 2 show ?thesis by simp
qed

section \<open>Merging into an existing document\<close>

lemma partition_loop_eq:
  "partition_loop mv (t, b, a, f) es =
     (t @ filter (belongs_to mv) es,
      b @ (if f then [] else takeWhile (\<lambda>e. \<not> belongs_to mv e) es),
      a @ (if f then filter (\<lambda>e. \<not> belongs_to mv e) es
           else filter (\<lambda>e. \<not> belongs_to mv e) (dropWhile (\<lambda>e. \<not> belongs_to mv e) es)),
      f \<or> list_ex (belongs_to mv) es)"
  by (induction es arbitrary: t b a f) auto

lemma merged_lines_eq:
  "merged_lines lines mv new_content =
     foldl add_block
       (add_block
          (foldl add_block (header_lines_of lines)
             (takeWhile (\<lambda>e. \<not> belongs_to mv e)
                (parse_stackbrew_entries (drop (length (header_lines_of lines)) lines))))
          (split_on newline new_content))
       (filter (\<lambda>e. \<not> belongs_to mv e)
          (dropWhile (\<lambda>e. \<not> belongs_to mv e)
             (parse_stackbrew_entries (drop (length (header_lines_of lines)) lines))))"
  by (simp add: merged_lines_def Let_def partition_loop_eq)

lemma prefix_add_block: "prefix r (add_block r b)"
  by (simp add: add_block_def)

lemma subseq_add_block: "subseq (r @ b) (add_block r b)"
  by (auto simp: add_block_def)

lemma sublist_add_block: "sublist b (add_block r b)"
  by (simp add: add_block_def)

lemma prefix_foldl_add_block: "prefix r (foldl add_block r es)"
proof (induction es arbitrary: r)
  case Nil
  then show ?case by simp
next
  case (Cons e es)
  have "prefix r (add_block r e)" by (rule prefix_add_block)
  also have "prefix (add_block r e) (foldl add_block (add_block r e) es)" by (rule Cons.IH)
  finally show ?case by simp
qed

lemma subseq_foldl_add_block: "subseq (r @ concat es) (foldl add_block r es)"
proof (induction es arbitrary: r)
  case Nil
  then show ?case by simp
next
  case (Cons e es)
  have "subseq ((r @ e) @ concat es) (add_block r e @ concat es)"
    by (intro list_emb_append_mono subseq_add_block) simp
  also have "subseq (add_block r e @ concat es) (foldl add_block (add_block r e) es)"
    by (rule Cons.IH)
  finally show ?case by simp
qed

lemma sublist_foldl_add_block: "e \<in> set es \<Longrightarrow> sublist e (foldl add_block r es)"
proof (induction es arbitrary: r)
  case Nil
  then show ?case by simp
next
  case (Cons x es)
  show ?case
  proof (cases "e = x")
    case True
    have "sublist e (add_block r e)" by (rule sublist_add_block)
    moreover have "sublist (add_block r e) (foldl add_block (add_block r e) es)"
      using prefix_foldl_add_block by (rule prefix_imp_sublist)
    ultimately show ?thesis using True by (auto intro: sublist_order.order_trans)
  next
    case False
    with Cons.prems have "e \<in> set es" by simp
    then show ?thesis by (simp add: Cons.IH)
  qed
qed

lemma join_lines_append:
  "join_lines (xs @ zs) = join_lines xs @ (if xs = [] \<or> zs = [] then [] else [newline]) @ join_lines zs"
  by (induction xs rule: join_lines.induct) (cases zs; simp)+

lemma prefix_join_lines: "prefix xs ys \<Longrightarrow> prefix (join_lines xs) (join_lines ys)"
  by (auto simp: prefix_def join_lines_append)

lemma parse_entries_loop_subseq:
  "subseq (concat entries @ current) P \<Longrightarrow>
   subseq (concat (parse_entries_loop entries current ls)) (P @ map rstrip ls)"
proof (induction ls arbitrary: entries current P)
  case Nil
  then show ?case by auto
next
  case (Cons l ls)
  let ?line = "rstrip l"
  from Cons.prems have keep: "subseq (concat entries @ current) (P @ [?line])"
    by (rule subseq_rev_drop_many)
  from Cons.prems have add: "subseq ((concat entries @ current) @ [?line]) (P @ [?line])"
    by (intro list_emb_append_mono) simp_all
  have step: "subseq (concat (parse_entries_loop entries' current' ls)) (P @ rstrip l # map rstrip ls)"
    if "subseq (concat entries' @ current') (P @ [?line])" for entries' current'
    using Cons.IH [OF that] by simp
  show ?case
    using keep add by (auto simp: Let_def intro!: step)
qed

lemma parse_stackbrew_entries_subseq:
  "subseq (concat (parse_stackbrew_entries ls)) (map rstrip ls)"
  using parse_entries_loop_subseq [of "[]" "[]" "[]" ls] by (simp add: parse_stackbrew_entries_def)

lemma others_split:
  "takeWhile P es @ filter P (dropWhile P es) = filter P es"
  by (induction es) auto

text \<open>
  C7 (as the code has it). The target entries are all the entries that belong to the major
  version, wherever they stand; the entries before the first of them form the block before,
  and all other entries after it form the block after. The rewritten lines are the header,
  the block before, the new content and the block after: no target entry is kept.
\<close>

theorem partition_by_membership:
  "partition_loop mv ([], [], [], False) entries =
     (filter (belongs_to mv) entries,
      takeWhile (\<lambda>e. \<not> belongs_to mv e) entries,
      filter (\<lambda>e. \<not> belongs_to mv e) (dropWhile (\<lambda>e. \<not> belongs_to mv e) entries),
      list_ex (belongs_to mv) entries) \<and>
   merged_lines lines mv new_content =
     foldl add_block
       (add_block
          (foldl add_block (header_lines_of lines)
             (takeWhile (\<lambda>e. \<not> belongs_to mv e)
                (parse_stackbrew_entries (drop (length (header_lines_of lines)) lines))))
          (split_on newline new_content))
       (filter (\<lambda>e. \<not> belongs_to mv e)
          (dropWhile (\<lambda>e. \<not> belongs_to mv e)
             (parse_stackbrew_entries (drop (length (header_lines_of lines)) lines))))"
  by (simp add: partition_loop_eq merged_lines_eq)

text \<open>
  C7 (as the specification states it) fails on the code: in a document with the entries 8.1,
  7.4 and 8.0, merged for major version 8, the entry 8.0 stands after the first entry that
  does not match; it is a target entry all the same and is removed, not kept in the block
  after.
\<close>

theorem later_target_entry_removed:
  "update_stackbrew_content ''Tags: 8.1\<newline>Tags: 7.4\<newline>Tags: 8.0'' 8 ''Tags: 8.2'' =
     ''Tags: 8.2\<newline>\<newline>Tags: 7.4'' \<and>
   partition_loop 8 ([], [], [], False) [[''Tags: 8.1''], [''Tags: 7.4''], [''Tags: 8.0'']] =
     ([[''Tags: 8.1''], [''Tags: 8.0'']], [], [[''Tags: 7.4'']], True)"
  by code_simp

lemma update_with_entries:
  "list_ex is_tags_line (split_on newline (read_text input_file)) \<Longrightarrow>
   update_stackbrew_content input_file mv new_content =
     join_lines (merged_lines (split_on newline (read_text input_file)) mv new_content)"
  by (simp add: update_stackbrew_content_def Let_def)

lemma update_without_entries:
  "\<not> list_ex is_tags_line (split_on newline (read_text input_file)) \<Longrightarrow>
   update_stackbrew_content input_file mv new_content =
     rstrip (read_text input_file) @ [newline, newline] @ new_content"
  by (simp add: update_stackbrew_content_def Let_def)

lemma prefix_header_merged: "prefix (header_lines_of lines) (merged_lines lines mv new_content)"
proof -
  let ?es = "parse_stackbrew_entries (drop (length (header_lines_of lines)) lines)"
  let ?r1 = "foldl add_block (header_lines_of lines) (takeWhile (\<lambda>e. \<not> belongs_to mv e) ?es)"
  let ?r2 = "add_block ?r1 (split_on newline new_content)"
  have "prefix (header_lines_of lines) ?r1" by (rule prefix_foldl_add_block)
  also have "prefix ?r1 ?r2" by (rule prefix_add_block)
  also have "prefix ?r2 (merged_lines lines mv new_content)"
    unfolding merged_lines_eq by (rule prefix_foldl_add_block)
  finally show ?thesis .
qed

lemma subseq_others_merged:
  "subseq (header_lines_of lines @ concat (other_entries lines mv)) (merged_lines lines mv new_content)"
proof -
  let ?es = "parse_stackbrew_entries (drop (length (header_lines_of lines)) lines)"
  let ?before = "takeWhile (\<lambda>e. \<not> belongs_to mv e) ?es"
  let ?after = "filter (\<lambda>e. \<not> belongs_to mv e) (dropWhile (\<lambda>e. \<not> belongs_to mv e) ?es)"
  let ?r1 = "foldl add_block (header_lines_of lines) ?before"
  let ?r2 = "add_block ?r1 (split_on newline new_content)"
  have o: "other_entries lines mv = ?before @ ?after"
    by (simp add: other_entries_def others_split)
  have 1: "subseq (header_lines_of lines @ concat ?before) ?r1"
    by (rule subseq_foldl_add_block)
  have "prefix ?r1 ?r2" by (rule prefix_add_block)
  then have 2: "subseq ?r1 ?r2" by (rule prefix_imp_subseq)
  from 1 2 have "subseq (header_lines_of lines @ concat ?before) ?r2"
    by (rule subseq_order.order_trans)
  then have "subseq ((header_lines_of lines @ concat ?before) @ concat ?after) (?r2 @ concat ?after)"
    by (intro list_emb_append_mono) simp_all
  also have "subseq (?r2 @ concat ?after) (merged_lines lines mv new_content)"
    unfolding merged_lines_eq by (rule subseq_foldl_add_block)
  finally show ?thesis by (simp add: o)
qed

lemma sublist_other_merged:
  assumes "e \<in> set (other_entries lines mv)"
  shows "sublist e (merged_lines lines mv new_content)"
proof -
  let ?es = "parse_stackbrew_entries (drop (length (header_lines_of lines)) lines)"
  let ?before = "takeWhile (\<lambda>e. \<not> belongs_to mv e) ?es"
  let ?after = "filter (\<lambda>e. \<not> belongs_to mv e) (dropWhile (\<lambda>e. \<not> belongs_to mv e) ?es)"
  let ?r1 = "foldl add_block (header_lines_of lines) ?before"
  let ?r2 = "add_block ?r1 (split_on newline new_content)"
  have o: "other_entries lines mv = ?before @ ?after"
    by (simp add: other_entries_def others_split)
  with assms have "e \<in> set ?before \<or> e \<in> set ?after" by simp
  then show ?thesis
  proof
    assume "e \<in> set ?before"
    then have "sublist e ?r1" by (rule sublist_foldl_add_block)
    moreover have "prefix ?r1 ?r2" by (rule prefix_add_block)
    moreover have "prefix ?r2 (merged_lines lines mv new_content)"
      unfolding merged_lines_eq by (rule prefix_foldl_add_block)
    ultimately show ?thesis
      by (meson prefix_imp_sublist sublist_order.order_trans)
  next
    assume "e \<in> set ?after"
    then show ?thesis unfolding merged_lines_eq by (rule sublist_foldl_add_block)
  qed
qed

lemma read_text_no_carriage_return: "carriage_return \<notin> set (read_text s)"
  by (induction s rule: read_text.induct) (simp_all add: carriage_return_def newline_def)

lemma read_text_unchanged: "carriage_return \<notin> set s \<Longrightarrow> read_text s = s"
  by (induction s rule: read_text.induct) auto

lemma strip_Nil: "strip [] = []"
  by (simp add: strip_def rstrip_def)

lemma filter_add_block:
  "filter (\<lambda>l. strip l \<noteq> []) (add_block r b) =
     filter (\<lambda>l. strip l \<noteq> []) r @ filter (\<lambda>l. strip l \<noteq> []) b"
  by (simp add: add_block_def strip_Nil)

lemma filter_foldl_add_block:
  "filter (\<lambda>l. strip l \<noteq> []) (foldl add_block r es) =
     filter (\<lambda>l. strip l \<noteq> []) r @ filter (\<lambda>l. strip l \<noteq> []) (concat es)"
  by (induction es arbitrary: r) (simp_all add: filter_add_block)

lemma filter_merged_lines:
  "filter (\<lambda>l. strip l \<noteq> []) (merged_lines lines mv new_content) =
     filter (\<lambda>l. strip l \<noteq> []) (header_lines_of lines) @
     filter (\<lambda>l. strip l \<noteq> [])
       (concat (takeWhile (\<lambda>e. \<not> belongs_to mv e)
          (parse_stackbrew_entries (drop (length (header_lines_of lines)) lines)))) @
     filter (\<lambda>l. strip l \<noteq> []) (split_on newline new_content) @
     filter (\<lambda>l. strip l \<noteq> [])
       (concat (filter (\<lambda>e. \<not> belongs_to mv e) (dropWhile (\<lambda>e. \<not> belongs_to mv e)
          (parse_stackbrew_entries (drop (length (header_lines_of lines)) lines)))))"
  unfolding merged_lines_eq by (simp only: filter_foldl_add_block filter_add_block append_assoc)

lemma set_add_block: "set (add_block r b) \<subseteq> insert [] (set r \<union> set b)"
  by (auto simp: add_block_def)

lemma set_foldl_add_block: "set (foldl add_block r es) \<subseteq> insert [] (set r \<union> set (concat es))"
proof (induction es arbitrary: r)
  case Nil
  then show ?case by auto
next
  case (Cons e es)
  have "set (foldl add_block (add_block r e) es) \<subseteq> insert [] (set (add_block r e) \<union> set (concat es))"
    by (rule Cons.IH)
  also have "\<dots> \<subseteq> insert [] (insert [] (set r \<union> set e) \<union> set (concat es))"
    using set_add_block [of r e] by auto
  finally show ?case by auto
qed

lemma parse_entries_loop_segments:
  "parse_entries_loop entries current ls =
     (if current = [] then entries @ map (filter is_entry_line) (segments (map rstrip ls))
      else entries @
           [current @ filter is_entry_line (takeWhile (\<lambda>x. \<not> is_tags_line x) (map rstrip ls))] @
           map (filter is_entry_line) (segments (dropWhile (\<lambda>x. \<not> is_tags_line x) (map rstrip ls))))"
  by (induction ls arbitrary: entries current) (simp_all add: Let_def is_entry_line_def)

lemma parse_stackbrew_entries_segments:
  "parse_stackbrew_entries ls = map (filter is_entry_line) (segments (map rstrip ls))"
  by (simp add: parse_stackbrew_entries_def parse_entries_loop_segments)

lemma segments_subset: "s \<in> set (segments xs) \<Longrightarrow> set s \<subseteq> set xs"
proof (induction xs arbitrary: s rule: segments.induct)
  case 1
  then show ?case by simp
next
  case (2 l ls)
  show ?case
  proof (cases "is_tags_line l")
    case True
    with "2.prems" have "s = l # takeWhile (\<lambda>x. \<not> is_tags_line x) ls \<or>
        s \<in> set (segments (dropWhile (\<lambda>x. \<not> is_tags_line x) ls))"
      by simp
    then show ?thesis
    proof
      assume "s = l # takeWhile (\<lambda>x. \<not> is_tags_line x) ls"
      then show ?thesis using set_takeWhileD [of _ "\<lambda>x. \<not> is_tags_line x" ls] by auto
    next
      assume "s \<in> set (segments (dropWhile (\<lambda>x. \<not> is_tags_line x) ls))"
      then have "set s \<subseteq> set (dropWhile (\<lambda>x. \<not> is_tags_line x) ls)"
        using True by (rule "2.IH"(1) [rotated])
      then show ?thesis using set_dropWhileD [of _ "\<lambda>x. \<not> is_tags_line x" ls] by auto
    qed
  next
    case False
    with "2.prems" have "s \<in> set (segments ls)" by simp
    with False have "set s \<subseteq> set ls" by (rule "2.IH"(2))
    then show ?thesis by auto
  qed
qed

lemma join_lines_split_on: "join_lines (split_on newline s) = s"
proof (induction s)
  case Nil
  then show ?case by simp
next
  case (Cons x xs)
  then show ?case
    by (cases "split_on newline xs"; cases "tl (split_on newline xs)") auto
qed

lemma header_then_body:
  "lines = header_lines_of lines @ drop (length (header_lines_of lines)) lines"
  by (simp add: header_lines_of_def dropWhile_eq_drop [symmetric])

lemma line_of_parsed_entry:
  assumes "e \<in> set (parse_stackbrew_entries ls)" and "l \<in> set e"
  shows "is_entry_line l \<and> l \<in> rstrip ` set ls"
proof -
  from assms(1) have "e \<in> filter is_entry_line ` set (segments (map rstrip ls))"
    by (simp only: parse_stackbrew_entries_segments set_map)
  then obtain s where e: "e = filter is_entry_line s" and s: "s \<in> set (segments (map rstrip ls))"
    by (rule imageE)
  from assms(2) have l: "l \<in> set s \<and> is_entry_line l" unfolding e by (simp only: set_filter mem_Collect_eq)
  from s have "set s \<subseteq> set (map rstrip ls)" by (rule segments_subset)
  with l have "l \<in> set (map rstrip ls)" by (simp add: subset_iff)
  then have "l \<in> rstrip ` set ls" by (simp only: set_map)
  with l show ?thesis by simp
qed

lemma sublist_segment_merged:
  assumes "s \<in> set (segments (map rstrip (drop (length (header_lines_of lines)) lines)))"
    and "\<not> belongs_to mv (filter is_entry_line s)"
  shows "sublist (filter is_entry_line s) (merged_lines lines mv new_content)"
proof -
  from assms(1) have "filter is_entry_line s \<in>
      filter is_entry_line ` set (segments (map rstrip (drop (length (header_lines_of lines)) lines)))"
    by (rule imageI)
  then have "filter is_entry_line s \<in>
      set (parse_stackbrew_entries (drop (length (header_lines_of lines)) lines))"
    by (simp only: parse_stackbrew_entries_segments set_map)
  with assms(2) have "filter is_entry_line s \<in> set (other_entries lines mv)"
    by (simp add: other_entries_def)
  then show ?thesis by (rule sublist_other_merged)
qed

lemma line_of_merged:
  assumes "l \<in> set (merged_lines lines mv new_content)"
  shows "l = [] \<or> l \<in> set (header_lines_of lines) \<or> l \<in> set (split_on newline new_content) \<or>
    (is_entry_line l \<and> l \<in> rstrip ` set (drop (length (header_lines_of lines)) lines))"
proof -
  let ?es = "parse_stackbrew_entries (drop (length (header_lines_of lines)) lines)"
  let ?before = "takeWhile (\<lambda>e. \<not> belongs_to mv e) ?es"
  let ?after = "filter (\<lambda>e. \<not> belongs_to mv e) (dropWhile (\<lambda>e. \<not> belongs_to mv e) ?es)"
  let ?r1 = "foldl add_block (header_lines_of lines) ?before"
  let ?r2 = "add_block ?r1 (split_on newline new_content)"
  have m: "merged_lines lines mv new_content = foldl add_block ?r2 ?after"
    by (rule merged_lines_eq)
  have 1: "set ?r1 \<subseteq> insert [] (set (header_lines_of lines) \<union> set (concat ?before))"
    by (rule set_foldl_add_block)
  have 2: "set ?r2 \<subseteq> insert [] (set ?r1 \<union> set (split_on newline new_content))"
    by (rule set_add_block)
  have 3: "set (foldl add_block ?r2 ?after) \<subseteq> insert [] (set ?r2 \<union> set (concat ?after))"
    by (rule set_foldl_add_block)
  from assms have "l \<in> set (foldl add_block ?r2 ?after)" by (simp only: m)
  with 1 2 3 have "l = [] \<or> l \<in> set (header_lines_of lines) \<or> l \<in> set (split_on newline new_content) \<or>
      l \<in> set (concat ?before) \<or> l \<in> set (concat ?after)"
    by (simp only: subset_iff insert_iff Un_iff) metis
  moreover have "is_entry_line l \<and> l \<in> rstrip ` set (drop (length (header_lines_of lines)) lines)"
    if "l \<in> set (concat ?before)"
  proof -
    from that obtain e where e: "e \<in> set ?before" "l \<in> set e" by auto
    from e(1) have "e \<in> set ?es" by (rule set_takeWhileD [THEN conjunct1])
    then show ?thesis using e(2) by (rule line_of_parsed_entry)
  qed
  moreover have "is_entry_line l \<and> l \<in> rstrip ` set (drop (length (header_lines_of lines)) lines)"
    if "l \<in> set (concat ?after)"
  proof -
    from that obtain e where e: "e \<in> set ?after" "l \<in> set e" by auto
    from e(1) have "e \<in> set (dropWhile (\<lambda>e. \<not> belongs_to mv e) ?es)" by simp
    then have "e \<in> set ?es" by (rule set_dropWhileD)
    then show ?thesis using e(2) by (rule line_of_parsed_entry)
  qed
  ultimately show ?thesis by blast
qed

text \<open>
  C8 (as the code has it). The document is the text of the file as \<^verbatim>\<open>read_text\<close> returns
  it: it has no carriage return, and it is the text of the file when the file has none. Its
  lines are the lines of the header followed by the lines of the body, which starts at the
  first \<^verbatim>\<open>Tags:\<close> line.

  For a document with a \<^verbatim>\<open>Tags:\<close> line:
  \<^item> the result is the rewritten lines joined by newlines; the lines of the header are its
    first lines, and the header text is the start of the result;
  \<^item> every entry that does not belong to the major version stands in the rewritten lines as
    one block, and these entries follow the header in their original order;
  \<^item> the entries are exactly the segments of the body, each line with its trailing
    whitespace removed, without the lines that are neither a \<^verbatim>\<open>Tags:\<close> line, nor a labelled
    line, nor blank: so every line of a segment that does not belong to the major version
    stands in the rewritten lines unless it is free text, and the free text of the body is
    in no entry;
  \<^item> the lines of the rewritten document that are not blank are exactly those of the header,
    of the entries before the first entry that belongs to the major version, of the new
    content, and of the other entries that do not belong to it, in this order;
  \<^item> every line of the rewritten document is empty, a line of the header, a line of the
    new content, or a line of the body with its trailing whitespace removed that is a
    \<^verbatim>\<open>Tags:\<close> line, a labelled line or blank.

  A document without a \<^verbatim>\<open>Tags:\<close> line gives its text with trailing whitespace removed, an
  empty line and the new content.
\<close>

theorem merge_keeps_header_and_other_entries:
  fixes input_file :: string
  defines "content \<equiv> read_text input_file"
  defines "lines \<equiv> split_on newline content"
  defines "body \<equiv> drop (length (header_lines_of lines)) lines"
  shows
  "(list_ex is_tags_line lines \<longrightarrow>
      update_stackbrew_content input_file mv new_content = join_lines (merged_lines lines mv new_content) \<and>
      prefix (header_lines_of lines) (merged_lines lines mv new_content) \<and>
      prefix (join_lines (header_lines_of lines)) (update_stackbrew_content input_file mv new_content) \<and>
      (\<forall>e\<in>set (other_entries lines mv). sublist e (merged_lines lines mv new_content)) \<and>
      subseq (header_lines_of lines @ concat (other_entries lines mv))
             (merged_lines lines mv new_content) \<and>
      subseq (concat (parse_stackbrew_entries body)) (map rstrip body) \<and>
      parse_stackbrew_entries body = map (filter is_entry_line) (segments (map rstrip body)) \<and>
      (\<forall>s\<in>set (segments (map rstrip body)). \<not> belongs_to mv (filter is_entry_line s) \<longrightarrow>
         sublist (filter is_entry_line s) (merged_lines lines mv new_content)) \<and>
      filter (\<lambda>l. strip l \<noteq> []) (merged_lines lines mv new_content) =
        filter (\<lambda>l. strip l \<noteq> []) (header_lines_of lines) @
        filter (\<lambda>l. strip l \<noteq> [])
          (concat (takeWhile (\<lambda>e. \<not> belongs_to mv e) (parse_stackbrew_entries body))) @
        filter (\<lambda>l. strip l \<noteq> []) (split_on newline new_content) @
        filter (\<lambda>l. strip l \<noteq> [])
          (concat (filter (\<lambda>e. \<not> belongs_to mv e) (dropWhile (\<lambda>e. \<not> belongs_to mv e)
             (parse_stackbrew_entries body)))) \<and>
      (\<forall>l\<in>set (merged_lines lines mv new_content).
         l = [] \<or> l \<in> set (header_lines_of lines) \<or> l \<in> set (split_on newline new_content) \<or>
         (is_entry_line l \<and> l \<in> rstrip ` set body))) \<and>
   (\<not> list_ex is_tags_line lines \<longrightarrow>
      update_stackbrew_content input_file mv new_content = rstrip content @ [newline, newline] @ new_content) \<and>
   carriage_return \<notin> set content \<and>
   (carriage_return \<notin> set input_file \<longrightarrow> content = input_file) \<and>
   join_lines lines = content \<and>
   lines = header_lines_of lines @ body"
proof -
  have tags: "update_stackbrew_content input_file mv new_content = join_lines (merged_lines lines mv new_content) \<and>
      prefix (header_lines_of lines) (merged_lines lines mv new_content) \<and>
      prefix (join_lines (header_lines_of lines)) (update_stackbrew_content input_file mv new_content) \<and>
      (\<forall>e\<in>set (other_entries lines mv). sublist e (merged_lines lines mv new_content)) \<and>
      subseq (header_lines_of lines @ concat (other_entries lines mv))
             (merged_lines lines mv new_content) \<and>
      subseq (concat (parse_stackbrew_entries body)) (map rstrip body) \<and>
      parse_stackbrew_entries body = map (filter is_entry_line) (segments (map rstrip body)) \<and>
      (\<forall>s\<in>set (segments (map rstrip body)). \<not> belongs_to mv (filter is_entry_line s) \<longrightarrow>
         sublist (filter is_entry_line s) (merged_lines lines mv new_content)) \<and>
      filter (\<lambda>l. strip l \<noteq> []) (merged_lines lines mv new_content) =
        filter (\<lambda>l. strip l \<noteq> []) (header_lines_of lines) @
        filter (\<lambda>l. strip l \<noteq> [])
          (concat (takeWhile (\<lambda>e. \<not> belongs_to mv e) (parse_stackbrew_entries body))) @
        filter (\<lambda>l. strip l \<noteq> []) (split_on newline new_content) @
        filter (\<lambda>l. strip l \<noteq> [])
          (concat (filter (\<lambda>e. \<not> belongs_to mv e) (dropWhile (\<lambda>e. \<not> belongs_to mv e)
             (parse_stackbrew_entries body)))) \<and>
      (\<forall>l\<in>set (merged_lines lines mv new_content).
         l = [] \<or> l \<in> set (header_lines_of lines) \<or> l \<in> set (split_on newline new_content) \<or>
         (is_entry_line l \<and> l \<in> rstrip ` set body))"
    if t: "list_ex is_tags_line lines"
  proof -
    from t have u: "update_stackbrew_content input_file mv new_content =
        join_lines (merged_lines lines mv new_content)"
      unfolding lines_def content_def by (rule update_with_entries)
    have p: "prefix (header_lines_of lines) (merged_lines lines mv new_content)"
      by (rule prefix_header_merged)
    from p have pj: "prefix (join_lines (header_lines_of lines))
        (update_stackbrew_content input_file mv new_content)"
      unfolding u by (rule prefix_join_lines)
    have o: "\<forall>e\<in>set (other_entries lines mv). sublist e (merged_lines lines mv new_content)"
      by (intro ballI) (rule sublist_other_merged)
    have so: "subseq (header_lines_of lines @ concat (other_entries lines mv))
        (merged_lines lines mv new_content)"
      by (rule subseq_others_merged)
    have sp: "subseq (concat (parse_stackbrew_entries body)) (map rstrip body)"
      by (rule parse_stackbrew_entries_subseq)
    have sg: "parse_stackbrew_entries body = map (filter is_entry_line) (segments (map rstrip body))"
      by (rule parse_stackbrew_entries_segments)
    have ss: "\<forall>s\<in>set (segments (map rstrip body)). \<not> belongs_to mv (filter is_entry_line s) \<longrightarrow>
         sublist (filter is_entry_line s) (merged_lines lines mv new_content)"
      unfolding body_def by (intro ballI impI) (rule sublist_segment_merged)
    have f: "filter (\<lambda>l. strip l \<noteq> []) (merged_lines lines mv new_content) =
        filter (\<lambda>l. strip l \<noteq> []) (header_lines_of lines) @
        filter (\<lambda>l. strip l \<noteq> [])
          (concat (takeWhile (\<lambda>e. \<not> belongs_to mv e) (parse_stackbrew_entries body))) @
        filter (\<lambda>l. strip l \<noteq> []) (split_on newline new_content) @
        filter (\<lambda>l. strip l \<noteq> [])
          (concat (filter (\<lambda>e. \<not> belongs_to mv e) (dropWhile (\<lambda>e. \<not> belongs_to mv e)
             (parse_stackbrew_entries body))))"
      unfolding body_def by (rule filter_merged_lines)
    have l: "\<forall>l\<in>set (merged_lines lines mv new_content).
         l = [] \<or> l \<in> set (header_lines_of lines) \<or> l \<in> set (split_on newline new_content) \<or>
         (is_entry_line l \<and> l \<in> rstrip ` set body)"
      unfolding body_def by (intro ballI) (rule line_of_merged)
    show ?thesis
      by (intro conjI) (rule u p pj o so sp sg ss f l)+
  qed
  have none: "update_stackbrew_content input_file mv new_content =
      rstrip content @ [newline, newline] @ new_content"
    if "\<not> list_ex is_tags_line lines"
    using that unfolding lines_def content_def by (rule update_without_entries)
  have cr: "carriage_return \<notin> set content"
    unfolding content_def by (rule read_text_no_carriage_return)
  have same: "carriage_return \<notin> set input_file \<longrightarrow> content = input_file"
    unfolding content_def by (intro impI) (rule read_text_unchanged)
  have j: "join_lines lines = content"
    unfolding lines_def by (rule join_lines_split_on)
  have hb: "lines = header_lines_of lines @ body"
    unfolding body_def by (rule header_then_body)
  from tags have 1: "list_ex is_tags_line lines \<longrightarrow>
      update_stackbrew_content input_file mv new_content = join_lines (merged_lines lines mv new_content) \<and>
      prefix (header_lines_of lines) (merged_lines lines mv new_content) \<and>
      prefix (join_lines (header_lines_of lines)) (update_stackbrew_content input_file mv new_content) \<and>
      (\<forall>e\<in>set (other_entries lines mv). sublist e (merged_lines lines mv new_content)) \<and>
      subseq (header_lines_of lines @ concat (other_entries lines mv))
             (merged_lines lines mv new_content) \<and>
      subseq (concat (parse_stackbrew_entries body)) (map rstrip body) \<and>
      parse_stackbrew_entries body = map (filter is_entry_line) (segments (map rstrip body)) \<and>
      (\<forall>s\<in>set (segments (map rstrip body)). \<not> belongs_to mv (filter is_entry_line s) \<longrightarrow>
         sublist (filter is_entry_line s) (merged_lines lines mv new_content)) \<and>
      filter (\<lambda>l. strip l \<noteq> []) (merged_lines lines mv new_content) =
        filter (\<lambda>l. strip l \<noteq> []) (header_lines_of lines) @
        filter (\<lambda>l. strip l \<noteq> [])
          (concat (takeWhile (\<lambda>e. \<not> belongs_to mv e) (parse_stackbrew_entries body))) @
        filter (\<lambda>l. strip l \<noteq> []) (split_on newline new_content) @
        filter (\<lambda>l. strip l \<noteq> [])
          (concat (filter (\<lambda>e. \<not> belongs_to mv e) (dropWhile (\<lambda>e. \<not> belongs_to mv e)
             (parse_stackbrew_entries body)))) \<and>
      (\<forall>l\<in>set (merged_lines lines mv new_content).
         l = [] \<or> l \<in> set (header_lines_of lines) \<or> l \<in> set (split_on newline new_content) \<or>
         (is_entry_line l \<and> l \<in> rstrip ` set body))"
    by (rule impI)
  from none have 2: "\<not> list_ex is_tags_line lines \<longrightarrow>
      update_stackbrew_content input_file mv new_content = rstrip content @ [newline, newline] @ new_content"
    by (rule impI)
  from 1 2 cr same j hb show ?thesis by (intro conjI)
qed

text \<open>
  The theorem on two documents. The first has a header line, an entry for 7.4 with a line
  of free text, and an entry for 8.1; it is merged for major version 8. It has a \<^verbatim>\<open>Tags:\<close>
  line and no carriage return, so it is read as it stands; the header is the start of the
  result; the entry for 7.4, as parsed, stands in the rewritten lines, and so do the lines
  of its segment that are not free text; the line \<^verbatim>\<open>GitCommit: a\<close> of the rewritten lines is
  one of the four kinds of lines. The second document has no \<^verbatim>\<open>Tags:\<close> line.
\<close>

theorem merge_keeps_header_and_other_entries_witness:
  "list_ex is_tags_line
     (split_on newline
        (read_text ''# header\<newline>Tags: 7.4  \<newline># note\<newline>GitCommit: a\<newline>Tags: 8.1'')) \<and>
   prefix ''# header''
     (update_stackbrew_content
        ''# header\<newline>Tags: 7.4  \<newline># note\<newline>GitCommit: a\<newline>Tags: 8.1'' 8 ''Tags: 8.2'') \<and>
   sublist [''Tags: 7.4'', ''GitCommit: a'']
     (merged_lines
        (split_on newline
           (read_text ''# header\<newline>Tags: 7.4  \<newline># note\<newline>GitCommit: a\<newline>Tags: 8.1''))
        8 ''Tags: 8.2'') \<and>
   sublist (filter is_entry_line [''Tags: 7.4'', ''# note'', ''GitCommit: a''])
     (merged_lines
        (split_on newline
           (read_text ''# header\<newline>Tags: 7.4  \<newline># note\<newline>GitCommit: a\<newline>Tags: 8.1''))
        8 ''Tags: 8.2'') \<and>
   (''GitCommit: a'' = [] \<or>
    ''GitCommit: a'' \<in> set (header_lines_of
       (split_on newline
          (read_text ''# header\<newline>Tags: 7.4  \<newline># note\<newline>GitCommit: a\<newline>Tags: 8.1''))) \<or>
    ''GitCommit: a'' \<in> set (split_on newline ''Tags: 8.2'') \<or>
    (is_entry_line ''GitCommit: a'' \<and>
     ''GitCommit: a'' \<in> rstrip ` set (drop (length (header_lines_of
       (split_on newline
          (read_text ''# header\<newline>Tags: 7.4  \<newline># note\<newline>GitCommit: a\<newline>Tags: 8.1''))))
       (split_on newline
          (read_text ''# header\<newline>Tags: 7.4  \<newline># note\<newline>GitCommit: a\<newline>Tags: 8.1''))))) \<and>
   read_text ''# header\<newline>Tags: 7.4  \<newline># note\<newline>GitCommit: a\<newline>Tags: 8.1'' =
     ''# header\<newline>Tags: 7.4  \<newline># note\<newline>GitCommit: a\<newline>Tags: 8.1'' \<and>
   update_stackbrew_content ''# header  \<newline>'' 8 ''Tags: 8.2'' =
     rstrip (read_text ''# header  \<newline>'') @ [newline, newline] @ ''Tags: 8.2''"
proof -
  let ?c = "''# header\<newline>Tags: 7.4  \<newline># note\<newline>GitCommit: a\<newline>Tags: 8.1''"
  let ?d = "''# header  \<newline>''"
  let ?n = "''Tags: 8.2''"
  let ?L = "split_on newline (read_text ?c)"
  have t: "list_ex is_tags_line ?L"
    by code_simp
  have h: "header_lines_of ?L = [''# header'']"
    by code_simp
  have o: "other_entries ?L 8 = [[''Tags: 7.4'', ''GitCommit: a'']]"
    by code_simp
  note T = merge_keeps_header_and_other_entries [of ?c 8 ?n]
  note all = T [THEN conjunct1, THEN mp, OF t]
  note p = all [THEN conjunct2, THEN conjunct2, THEN conjunct1]
  note s = all [THEN conjunct2, THEN conjunct2, THEN conjunct2, THEN conjunct1]
  note ss = all [THEN conjunct2, THEN conjunct2, THEN conjunct2, THEN conjunct2, THEN conjunct2,
      THEN conjunct2, THEN conjunct2, THEN conjunct1]
  note ln = all [THEN conjunct2, THEN conjunct2, THEN conjunct2, THEN conjunct2, THEN conjunct2,
      THEN conjunct2, THEN conjunct2, THEN conjunct2, THEN conjunct2]
  have j: "join_lines [''# header''] = ''# header''"
    by (simp only: join_lines.simps)
  from p have 1: "prefix ''# header'' (update_stackbrew_content ?c 8 ?n)"
    unfolding h j .
  have "[''Tags: 7.4'', ''GitCommit: a''] \<in> set (other_entries ?L 8)"
    unfolding o by (rule list.set_intros(1))
  with s have 2: "sublist [''Tags: 7.4'', ''GitCommit: a''] (merged_lines ?L 8 ?n)"
    by (rule bspec)
  have seg: "[''Tags: 7.4'', ''# note'', ''GitCommit: a'']
      \<in> set (segments (map rstrip (drop (length (header_lines_of ?L)) ?L)))"
    by code_simp
  have nb: "\<not> belongs_to 8 (filter is_entry_line [''Tags: 7.4'', ''# note'', ''GitCommit: a''])"
    by code_simp
  from ss seg have "\<not> belongs_to 8 (filter is_entry_line [''Tags: 7.4'', ''# note'', ''GitCommit: a'']) \<longrightarrow>
      sublist (filter is_entry_line [''Tags: 7.4'', ''# note'', ''GitCommit: a'']) (merged_lines ?L 8 ?n)"
    by (rule bspec)
  from this nb have 3: "sublist (filter is_entry_line [''Tags: 7.4'', ''# note'', ''GitCommit: a''])
      (merged_lines ?L 8 ?n)"
    by (rule mp)
  have m: "''GitCommit: a'' \<in> set (merged_lines ?L 8 ?n)"
    by code_simp
  from ln m have 4: "''GitCommit: a'' = [] \<or>
      ''GitCommit: a'' \<in> set (header_lines_of ?L) \<or>
      ''GitCommit: a'' \<in> set (split_on newline ?n) \<or>
      (is_entry_line ''GitCommit: a'' \<and>
       ''GitCommit: a'' \<in> rstrip ` set (drop (length (header_lines_of ?L)) ?L))"
    by (rule bspec)
  have nc: "carriage_return \<notin> set ?c"
    by code_simp
  note same = T [THEN conjunct2, THEN conjunct2, THEN conjunct2, THEN conjunct1]
  from same nc have 5: "read_text ?c = ?c"
    by (rule mp)
  have nt: "\<not> list_ex is_tags_line (split_on newline (read_text ?d))"
    by code_simp
  note none = merge_keeps_header_and_other_entries [of ?d 8 ?n, THEN conjunct2, THEN conjunct1]
  from none nt have 6: "update_stackbrew_content ?d 8 ?n =
      rstrip (read_text ?d) @ [newline, newline] @ ?n"
    by (rule mp)
  from t 1 2 3 4 5 6 show ?thesis by (intro conjI)
qed

text \<open>
  C8 (as the specification states it) fails on the code. In the first document the entry
  for 7.4 has a line with trailing blanks and a line of free text: the result has the line
  without the blanks and does not have the free text. The second document has no entry: its
  header line ends in blanks, and the result starts with the line without them. The third
  document ends its lines with a carriage return and a line feed: the header of the result
  ends with a line feed alone.
\<close>

theorem merge_not_byte_identical:
  "update_stackbrew_content
     ''# header\<newline>Tags: 7.4  \<newline># note\<newline>GitCommit: a\<newline>Tags: 8.1'' 8 ''Tags: 8.2'' =
     ''# header\<newline>\<newline>Tags: 7.4\<newline>GitCommit: a\<newline>\<newline>Tags: 8.2'' \<and>
   update_stackbrew_content ''# header  \<newline>'' 8 ''Tags: 8.2'' = ''# header\<newline>\<newline>Tags: 8.2'' \<and>
   update_stackbrew_content
     (''# header'' @ [carriage_return, newline] @ ''Tags: 7.4'' @ [carriage_return, newline]) 8 ''Tags: 8.2'' =
     ''# header\<newline>\<newline>Tags: 7.4\<newline>\<newline>Tags: 8.2''"
  by code_simp

end
